theory Spec2Isabelle
  imports Main
begin

section \<open>Strings\<close>

text \<open>
  Python strings are modelled as \<open>string\<close>: a character is one of the 256 code points
  below U+0100, and the character classes below are Python's on these code points. Text
  with other code points cannot be written in this type.
\<close>

text \<open>The class \<open>\d\<close> of the \<open>re\<close> module: the decimal digits.\<close>

definition is_digit :: "char \<Rightarrow> bool" where
  "is_digit c = (c \<in> set ''0123456789'')"

text \<open>
  \<open>str.isdigit()\<close>: a non-empty string of digit characters, which besides the decimal
  digits are the superscripts U+00B2, U+00B3 and U+00B9.
\<close>

definition is_digit_char :: "char \<Rightarrow> bool" where
  "is_digit_char c = (is_digit c \<or> c \<in> set [CHR 0xB2, CHR 0xB3, CHR 0xB9])"

definition isdigit :: "string \<Rightarrow> bool" where
  "isdigit s = (s \<noteq> [] \<and> list_all is_digit_char s)"

text \<open>\<open>s.startswith(p)\<close>.\<close>

definition startswith :: "string \<Rightarrow> string \<Rightarrow> bool" where
  "startswith p s = (take (length p) s = p)"

text \<open>\<open>sub in s\<close> for strings.\<close>

fun contains :: "string \<Rightarrow> string \<Rightarrow> bool" where
  "contains sub [] = (sub = [])"
| "contains sub (c # cs) = (startswith sub (c # cs) \<or> contains sub cs)"

text \<open>
  \<open>re.search(r"/(\d{10,})/", s)\<close>, returning group 1. The search tries every start
  position from the left. At a \<open>/\<close> the greedy \<open>\d{10,}\<close> takes the whole run of
  digits that follows; giving digits back cannot help, because the next character would
  then be a digit and not the closing \<open>/\<close>.
\<close>

fun search_id :: "string \<Rightarrow> string option" where
  "search_id [] = None"
| "search_id (c # cs) =
     (if c = CHR ''/'' \<and> 10 \<le> length (takeWhile is_digit cs)
         \<and> startswith ''/'' (dropWhile is_digit cs)
      then Some (takeWhile is_digit cs)
      else search_id cs)"

text \<open>\<open>re.fullmatch(r"\d{10,}", s)\<close> as a truth value.\<close>

definition fullmatch_id :: "string \<Rightarrow> bool" where
  "fullmatch_id s = (10 \<le> length s \<and> list_all is_digit s)"

section \<open>Product records and the parsed page\<close>

text \<open>The dictionary with the keys \<open>id\<close>, \<open>name\<close> and \<open>url\<close>.\<close>

record product =
  prod_id :: string
  prod_name :: string
  prod_url :: string

text \<open>
  The parser is a library (\<open>BeautifulSoup(html, 'html.parser')\<close>). The model takes its
  result as the sequence of the page's elements in document order, each carrying what
  the extractor reads from it: attributes (\<open>None\<close> when absent), the stripped text of
  the element, the stripped text of its first nested \<open>h2\<close>, \<open>h3\<close> and \<open>span\<close>
  (\<open>None\<close> when there is no such descendant), and the same three for its parent.
\<close>

record element =
  tag :: string
  href :: "string option"
  title :: "string option"
  aria_label :: "string option"
  data_testid :: "string option"
  data_product_id :: "string option"
  text_content :: string
  h2_text :: "string option"
  h3_text :: "string option"
  span_text :: "string option"
  parent_h2_text :: "string option"
  parent_h3_text :: "string option"
  parent_span_text :: "string option"

type_synonym soup = "element list"

text \<open>\<open>soup.find_all("a", href=True)\<close> and \<open>soup.find_all(attrs={"data-product-id": True})\<close>.\<close>

definition find_all_links :: "soup \<Rightarrow> element list" where
  "find_all_links doc = filter (\<lambda>e. tag e = ''a'' \<and> href e \<noteq> None) doc"

definition find_all_cards :: "soup \<Rightarrow> element list" where
  "find_all_cards doc = filter (\<lambda>e. data_product_id e \<noteq> None) doc"

text \<open>\<open>a or b\<close> on the results of \<open>find\<close>: a tag is always truthy, \<open>None\<close> is not.\<close>

definition or_else :: "'a option \<Rightarrow> 'a option \<Rightarrow> 'a option" where
  "or_else a b = (case a of Some x \<Rightarrow> Some x | None \<Rightarrow> b)"

text \<open>Truthiness of an optional attribute: present and not empty.\<close>

definition truthy :: "string option \<Rightarrow> bool" where
  "truthy a = (case a of None \<Rightarrow> False | Some s \<Rightarrow> s \<noteq> [])"

text \<open>White space as \<open>str.isspace()\<close>, \<open>str.strip()\<close> and the class \<open>\s\<close> have it.\<close>

definition is_space :: "char \<Rightarrow> bool" where
  "is_space c = (c \<in> set [CHR 0x09, CHR 0x0A, CHR 0x0B, CHR 0x0C, CHR 0x0D,
                           CHR 0x1C, CHR 0x1D, CHR 0x1E, CHR 0x1F, CHR '' '',
                           CHR 0x85, CHR 0xA0])"

text \<open>\<open>s.strip()\<close>.\<close>

definition strip :: "string \<Rightarrow> string" where
  "strip s = rev (dropWhile is_space (rev (dropWhile is_space s)))"

definition generic_labels :: "string list" where
  "generic_labels = [''Meer verkopers'', ''Bekijk product'', ''Bekijk details'']"

text \<open>The chain of naming strategies of the first pass, in the order of the source.\<close>

definition link_name :: "element \<Rightarrow> string" where
  "link_name link =
     (if truthy (or_else (h2_text link) (h3_text link))
      then take 100 (the (or_else (h2_text link) (h3_text link)))
      else if truthy (title link) then take 100 (strip (the (title link)))
      else if text_content link \<noteq> [] then
        (if 10 < length (text_content link) \<and> \<not> isdigit (text_content link)
            \<and> text_content link \<notin> set generic_labels
         then take 100 (text_content link) else ''Unknown Product'')
      else if truthy (aria_label link) then take 100 (strip (the (aria_label link)))
      else if truthy (data_testid link) \<and> contains ''product'' (the (data_testid link)) then
        (if truthy (or_else (parent_h2_text link)
                     (or_else (parent_h3_text link) (parent_span_text link)))
         then take 100 (the (or_else (parent_h2_text link)
                     (or_else (parent_h3_text link) (parent_span_text link))))
         else ''Unknown Product'')
      else ''Unknown Product'')"

text \<open>
  What one hyperlink contributes: nothing unless its target contains \<open>/p/\<close> and an
  identifier; otherwise the record built at the end of the loop body.
\<close>

definition link_record :: "element \<Rightarrow> product option" where
  "link_record link =
     (case href link of
        None \<Rightarrow> None
      | Some h \<Rightarrow>
          if h \<noteq> [] \<and> contains ''/p/'' h then
            (case search_id h of
               None \<Rightarrow> None
             | Some product_id \<Rightarrow>
                 Some \<lparr>prod_id = product_id, prod_name = link_name link,
                       prod_url = (if startswith ''http'' h then h
                                   else ''https://www.bol.com'' @ h)\<rparr>)
          else None)"

text \<open>The naming of the second pass.\<close>

definition card_name :: "element \<Rightarrow> string" where
  "card_name elem =
     (case or_else (h2_text elem) (or_else (h3_text elem) (span_text elem)) of
        None \<Rightarrow> ''Unknown Product''
      | Some t \<Rightarrow> if t \<noteq> [] \<and> 3 < length t then take 100 t else ''Unknown Product'')"

definition card_record :: "element \<Rightarrow> product option" where
  "card_record elem =
     (case data_product_id elem of
        None \<Rightarrow> None
      | Some pid \<Rightarrow>
          if pid \<noteq> [] \<and> fullmatch_id pid then
            Some \<lparr>prod_id = pid, prod_name = card_name elem,
                  prod_url = ''https://www.bol.com/nl/nl/p/'' @ pid @ ''/''\<rparr>
          else None)"

section \<open>The extractor\<close>

text \<open>
  Both loops of \<open>_extract_products_from_html\<close> have the same shape: an element that
  contributes a record whose identifier is in \<open>seen_ids\<close> is skipped, any other record
  is appended and its identifier added to \<open>seen_ids\<close>. The loop is written once, over
  the function that says what an element contributes.
\<close>

fun scan :: "(element \<Rightarrow> product option) \<Rightarrow> element list \<Rightarrow> product list \<Rightarrow> string set
               \<Rightarrow> product list \<times> string set" where
  "scan contrib [] products seen_ids = (products, seen_ids)"
| "scan contrib (e # es) products seen_ids =
     (case contrib e of
        None \<Rightarrow> scan contrib es products seen_ids
      | Some p \<Rightarrow>
          if prod_id p \<in> seen_ids then scan contrib es products seen_ids
          else scan contrib es (products @ [p]) (insert (prod_id p) seen_ids))"

definition extract_products :: "soup \<Rightarrow> product list" where
  "extract_products doc =
     (case scan link_record (find_all_links doc) [] {} of
        (products, seen_ids) \<Rightarrow>
          fst (scan card_record (find_all_cards doc) products seen_ids))"

text \<open>
  Specification side: the records the two passes would contribute without the
  \<open>seen_ids\<close> filter, in extraction order (every hyperlink in document order, then
  every element with a \<open>data-product-id\<close> attribute in document order), and the same
  records in plain document order, element by element.
\<close>

definition candidates :: "soup \<Rightarrow> product list" where
  "candidates doc = List.map_filter link_record (find_all_links doc)
                    @ List.map_filter card_record (find_all_cards doc)"

definition element_occurrences :: "element \<Rightarrow> product list" where
  "element_occurrences e =
     (if tag e = ''a'' \<and> href e \<noteq> None then (case link_record e of None \<Rightarrow> [] | Some p \<Rightarrow> [p]) else [])
     @ (case card_record e of None \<Rightarrow> [] | Some p \<Rightarrow> [p])"

definition document_occurrences :: "soup \<Rightarrow> product list" where
  "document_occurrences doc = concat (map element_occurrences doc)"

definition first_with_id :: "string \<Rightarrow> product list \<Rightarrow> product option" where
  "first_with_id pid ps = find (\<lambda>p. prod_id p = pid) ps"

fun keep_first :: "product list \<Rightarrow> product list \<Rightarrow> string set \<Rightarrow> product list \<times> string set" where
  "keep_first [] ps seen = (ps, seen)"
| "keep_first (c # cs) ps seen =
     (if prod_id c \<in> seen then keep_first cs ps seen
      else keep_first cs (ps @ [c]) (insert (prod_id c) seen))"

section \<open>Errors and the outside world\<close>

text \<open>
  Exceptions are values. \<open>ValueError\<close> is the one the program raises itself;
  \<open>WebDriverException\<close> is the one the browser loop names in its own handler;
  \<open>OtherException\<close> stands for every other exception a library call can raise
  (connection failures, timeouts, parser failures).
\<close>

datatype error = ValueError | WebDriverException | OtherException

text \<open>
  What the program reads from outside: the parser, the HTTP session (\<open>session.get\<close>
  for the search address of a keyword and page: an exception, or a status code and a
  body), whether the browser automation library was importable, whether starting the
  browser raises, what the browser returns as the rendered page source of a search page
  (after the consent click and the staged scrolling), and the clock as \<open>_now_str\<close>
  prints it.
\<close>

record env =
  parse_html :: "string \<Rightarrow> error + soup"
  session_get :: "string \<Rightarrow> int \<Rightarrow> error + (int \<times> string)"
  has_selenium :: bool
  chrome_start :: "error option"
  driver_page_source :: "string \<Rightarrow> int \<Rightarrow> error + string"
  now_str :: string

text \<open>The ghost record of page requests issued, in order.\<close>

datatype strategy = Lightweight | Rendered

type_synonym fetch_log = "(strategy \<times> int) list"

definition pages_of :: "strategy \<Rightarrow> fetch_log \<Rightarrow> int list" where
  "pages_of s log = map snd (filter (\<lambda>f. fst f = s) log)"

definition extract_products_from_html :: "env \<Rightarrow> string \<Rightarrow> error + product list" where
  "extract_products_from_html env html =
     (case parse_html env html of
        Inl e \<Rightarrow> Inl e
      | Inr doc \<Rightarrow> Inr (extract_products doc))"

section \<open>The two search strategies\<close>

record target_info =
  found :: bool
  target_page :: "int option"
  position_on_page :: "int option"
  target_page_product :: "int option"

definition no_target :: target_info where
  "no_target = \<lparr>found = False, target_page = None, position_on_page = None,
                 target_page_product = None\<rparr>"

text \<open>\<open>for pos, product in enumerate(page_products, 1)\<close>, left at the first match.\<close>

fun find_target :: "string \<Rightarrow> product list \<Rightarrow> int \<Rightarrow> int option" where
  "find_target tid [] pos = None"
| "find_target tid (p # ps) pos =
     (if prod_id p = tid then Some pos else find_target tid ps (pos + 1))"

text \<open>
  The target check both strategies make after \<open>products.extend(page_products)\<close>;
  \<open>products\<close> is the list after the extension.
\<close>

definition check_target :: "string \<Rightarrow> int \<Rightarrow> product list \<Rightarrow> product list \<Rightarrow> target_info
                            \<Rightarrow> target_info" where
  "check_target tid page products page_products ti =
     (if tid \<noteq> [] then
        (case find_target tid page_products 1 of
           None \<Rightarrow> ti
         | Some pos \<Rightarrow>
             \<lparr>found = True, target_page = Some page, position_on_page = Some pos,
              target_page_product =
                Some (int (length products) - int (length page_products) + pos)\<rparr>)
      else ti)"

text \<open>
  The body of the \<open>try\<close> of \<open>search_products_mobile\<close> for one page. The result is
  the exception raised, or the new \<open>products\<close> and \<open>target_info\<close> and whether the
  loop is left by \<open>break\<close>.
\<close>

definition mobile_page :: "env \<Rightarrow> string \<Rightarrow> string \<Rightarrow> int \<Rightarrow> product list \<Rightarrow> target_info
                           \<Rightarrow> error + (product list \<times> target_info \<times> bool)" where
  "mobile_page env keyword tid page products ti =
     (case session_get env keyword page of
        Inl e \<Rightarrow> Inl e
      | Inr (status_code, text) \<Rightarrow>
          if status_code = 200 then
            (case extract_products_from_html env text of
               Inl e \<Rightarrow> Inl e
             | Inr page_products \<Rightarrow>
                 Inr (products @ page_products,
                      check_target tid page (products @ page_products) page_products ti,
                      found (check_target tid page (products @ page_products) page_products ti)))
          else Inr (products, ti, True))"

text \<open>
  \<open>for page in range(1, max_pages + 1)\<close> with its handler: an exception in the body
  ends the loop with what has been accumulated.
\<close>

fun mobile_loop :: "env \<Rightarrow> string \<Rightarrow> string \<Rightarrow> int list \<Rightarrow> product list \<Rightarrow> target_info
                     \<Rightarrow> fetch_log \<Rightarrow> product list \<times> target_info \<times> fetch_log" where
  "mobile_loop env keyword tid [] products ti log = (products, ti, log)"
| "mobile_loop env keyword tid (page # pages) products ti log =
     (case mobile_page env keyword tid page products ti of
        Inl e \<Rightarrow> (products, ti, log @ [(Lightweight, page)])
      | Inr (products', ti', stop) \<Rightarrow>
          if stop then (products', ti', log @ [(Lightweight, page)])
          else mobile_loop env keyword tid pages products' ti' (log @ [(Lightweight, page)]))"

definition search_products_mobile :: "env \<Rightarrow> string \<Rightarrow> int \<Rightarrow> string
                                       \<Rightarrow> error + (product list \<times> target_info \<times> fetch_log)" where
  "search_products_mobile env keyword max_pages tid =
     Inr (mobile_loop env keyword tid [1..max_pages] [] no_target [])"

text \<open>The body of the inner \<open>try\<close> of \<open>search_products_browser\<close> for one page.\<close>

definition browser_page :: "env \<Rightarrow> string \<Rightarrow> string \<Rightarrow> int \<Rightarrow> product list \<Rightarrow> target_info
                            \<Rightarrow> error + (product list \<times> target_info \<times> bool)" where
  "browser_page env keyword tid page products ti =
     (case driver_page_source env keyword page of
        Inl e \<Rightarrow> Inl e
      | Inr html \<Rightarrow>
          (case extract_products_from_html env html of
             Inl e \<Rightarrow> Inl e
           | Inr page_products \<Rightarrow>
               Inr (products @ page_products,
                    check_target tid page (products @ page_products) page_products ti,
                    found (check_target tid page (products @ page_products) page_products ti)
                      \<or> length page_products = 0)))"

text \<open>
  The page loop of the browser strategy. A \<open>WebDriverException\<close> is caught by the
  inner handler (\<open>break\<close>); any other exception leaves the loop and is caught by the
  outer handler, which returns the same two variables.
\<close>

fun browser_loop :: "env \<Rightarrow> string \<Rightarrow> string \<Rightarrow> int list \<Rightarrow> product list \<Rightarrow> target_info
                      \<Rightarrow> fetch_log \<Rightarrow> product list \<times> target_info \<times> fetch_log" where
  "browser_loop env keyword tid [] products ti log = (products, ti, log)"
| "browser_loop env keyword tid (page # pages) products ti log =
     (case browser_page env keyword tid page products ti of
        Inl WebDriverException \<Rightarrow> (products, ti, log @ [(Rendered, page)])
      | Inl e \<Rightarrow> (products, ti, log @ [(Rendered, page)])
      | Inr (products', ti', stop) \<Rightarrow>
          if stop then (products', ti', log @ [(Rendered, page)])
          else browser_loop env keyword tid pages products' ti' (log @ [(Rendered, page)]))"

definition search_products_browser :: "env \<Rightarrow> string \<Rightarrow> int \<Rightarrow> string
                                        \<Rightarrow> error + (product list \<times> target_info \<times> fetch_log)" where
  "search_products_browser env keyword max_pages tid =
     (if \<not> has_selenium env then Inr ([], no_target, [])
      else
        (case chrome_start env of
           Some e \<Rightarrow> Inr ([], no_target, [])
         | None \<Rightarrow> Inr (browser_loop env keyword tid [1..max_pages] [] no_target [])))"

section \<open>The ranking locator\<close>

record ranking =
  position :: "int option"
  page_product :: "int option"
  page :: "int option"
  product :: "product option"
  total_found :: int

text \<open>
  \<open>find_product_ranking\<close> has no handler of its own: an exception of a strategy
  would pass through it.
\<close>

definition find_product_ranking :: "env \<Rightarrow> string \<Rightarrow> string \<Rightarrow> int
                                     \<Rightarrow> error + (ranking \<times> fetch_log)" where
  "find_product_ranking env keyword tid max_pages =
     (case search_products_mobile env keyword max_pages tid of
        Inl e \<Rightarrow> Inl e
      | Inr (products, ti, log) \<Rightarrow>
          (case (if \<not> found ti then
                   (case search_products_browser env keyword max_pages tid of
                      Inl e \<Rightarrow> Inl e
                    | Inr (browser_products, browser_ti, browser_log) \<Rightarrow>
                        if 0 < length browser_products
                        then Inr (browser_products, browser_ti, log @ browser_log)
                        else Inr (products, ti, log @ browser_log))
                 else Inr (products, ti, log)) of
             Inl e \<Rightarrow> Inl e
           | Inr (products', ti', log') \<Rightarrow>
               if found ti' then
                 Inr (\<lparr>position = position_on_page ti',
                       page_product = target_page_product ti',
                       page = target_page ti',
                       product = first_with_id tid products',
                       total_found = int (length products')\<rparr>, log')
               else
                 Inr (\<lparr>position = None, page_product = None, page = None, product = None,
                       total_found = int (length products')\<rparr>, log')))"

text \<open>
  Specification side: the records a strategy extracts from a page when the fetch of
  that page succeeds (\<open>None\<close> when the request raises, the status is not 200, or the
  parser raises).
\<close>

definition mobile_records :: "env \<Rightarrow> string \<Rightarrow> int \<Rightarrow> product list option" where
  "mobile_records env keyword i =
     (case session_get env keyword i of
        Inl e \<Rightarrow> None
      | Inr (status_code, text) \<Rightarrow>
          if status_code = 200 then
            (case extract_products_from_html env text of
               Inl e \<Rightarrow> None
             | Inr ps \<Rightarrow> Some ps)
          else None)"

definition browser_records :: "env \<Rightarrow> string \<Rightarrow> int \<Rightarrow> product list option" where
  "browser_records env keyword i =
     (case driver_page_source env keyword i of
        Inl e \<Rightarrow> None
      | Inr html \<Rightarrow>
          (case extract_products_from_html env html of
             Inl e \<Rightarrow> None
           | Inr ps \<Rightarrow> Some ps))"

text \<open>A page that was extracted and does not hold the target.\<close>

definition scanned_without_match :: "(int \<Rightarrow> product list option) \<Rightarrow> string \<Rightarrow> int \<Rightarrow> bool" where
  "scanned_without_match recs tid i =
     (case recs i of None \<Rightarrow> False | Some ps \<Rightarrow> find_target tid ps 1 = None)"

text \<open>
  The target first appears on page \<open>p\<close>, at position \<open>m\<close> of that page's records:
  the pages before \<open>p\<close> were extracted and do not hold it.
\<close>

definition first_match :: "(int \<Rightarrow> product list option) \<Rightarrow> string \<Rightarrow> int \<Rightarrow> int \<Rightarrow> bool" where
  "first_match recs tid p m =
     (list_all (scanned_without_match recs tid) [1..p - 1]
      \<and> (case recs p of None \<Rightarrow> False | Some ps \<Rightarrow> find_target tid ps 1 = Some m))"

definition record_count :: "(int \<Rightarrow> product list option) \<Rightarrow> int \<Rightarrow> int" where
  "record_count recs i = (case recs i of None \<Rightarrow> 0 | Some ps \<Rightarrow> int (length ps))"

text \<open>The count of records of all pages strictly before page \<open>p\<close>.\<close>

definition records_before :: "(int \<Rightarrow> product list option) \<Rightarrow> int \<Rightarrow> int" where
  "records_before recs p = sum_list (map (record_count recs) [1..p - 1])"

definition all_records :: "(int \<Rightarrow> product list option) \<Rightarrow> int list \<Rightarrow> product list" where
  "all_records recs pages =
     concat (map (\<lambda>i. case recs i of None \<Rightarrow> [] | Some ps \<Rightarrow> ps) pages)"

definition nonempty_page :: "(int \<Rightarrow> product list option) \<Rightarrow> int \<Rightarrow> bool" where
  "nonempty_page recs i = (recs i \<noteq> Some [])"

text \<open>The mobile strategy did not match.\<close>

definition mobile_missed :: "env \<Rightarrow> string \<Rightarrow> string \<Rightarrow> int \<Rightarrow> bool" where
  "mobile_missed env keyword tid max_pages =
     (case search_products_mobile env keyword max_pages tid of
        Inl e \<Rightarrow> False
      | Inr (products, ti, log) \<Rightarrow> \<not> found ti)"

definition browser_missed :: "env \<Rightarrow> string \<Rightarrow> string \<Rightarrow> int \<Rightarrow> bool" where
  "browser_missed env keyword tid max_pages =
     (case search_products_browser env keyword max_pages tid of
        Inl e \<Rightarrow> False
      | Inr (products, ti, log) \<Rightarrow> \<not> found ti)"

definition products_of :: "error + (product list \<times> target_info \<times> fetch_log) \<Rightarrow> product list" where
  "products_of r = (case r of Inl e \<Rightarrow> [] | Inr (products, ti, log) \<Rightarrow> products)"

section \<open>Names and identifiers from a product address\<close>

definition get_product_id :: "string \<Rightarrow> error + string" where
  "get_product_id product_url =
     (case search_id product_url of
        Some d \<Rightarrow> Inr d
      | None \<Rightarrow> Inl ValueError)"

text \<open>
  The address holds a run of ten or more digits between two path delimiters.
\<close>

definition has_id_segment :: "string \<Rightarrow> bool" where
  "has_id_segment u =
     (\<exists>pre ds post. u = pre @ ''/'' @ ds @ ''/'' @ post \<and> 10 \<le> length ds \<and> list_all is_digit ds)"

text \<open>
  \<open>re.search(r'/p/([^/]+)/(\d{10,})/', s)\<close>, returning group 1. At a start position
  both greedy groups can only take the whole run that follows: a shorter run would have
  to be followed by \<open>/\<close>, and is followed by a character of the run instead.
\<close>

fun search_slug :: "string \<Rightarrow> string option" where
  "search_slug [] = None"
| "search_slug (c # cs) =
     (if startswith ''/p/'' (c # cs)
         \<and> takeWhile (\<lambda>x. x \<noteq> CHR ''/'') (drop 3 (c # cs)) \<noteq> []
         \<and> startswith ''/'' (dropWhile (\<lambda>x. x \<noteq> CHR ''/'') (drop 3 (c # cs)))
         \<and> 10 \<le> length (takeWhile is_digit (drop 1 (dropWhile (\<lambda>x. x \<noteq> CHR ''/'') (drop 3 (c # cs)))))
         \<and> startswith ''/'' (dropWhile is_digit (drop 1 (dropWhile (\<lambda>x. x \<noteq> CHR ''/'') (drop 3 (c # cs)))))
      then Some (takeWhile (\<lambda>x. x \<noteq> CHR ''/'') (drop 3 (c # cs)))
      else search_slug cs)"

text \<open>
  The letters that have a partner of the other case among the 256 code points: the 26
  of ASCII, and U+00E0 to U+00FE without U+00F7 against U+00C0 to U+00DE without U+00D7.
\<close>

definition lower_letters :: string where
  "lower_letters = ''abcdefghijklmnopqrstuvwxyz'' @
     [CHR 0xE0, CHR 0xE1, CHR 0xE2, CHR 0xE3, CHR 0xE4, CHR 0xE5, CHR 0xE6, CHR 0xE7,
      CHR 0xE8, CHR 0xE9, CHR 0xEA, CHR 0xEB, CHR 0xEC, CHR 0xED, CHR 0xEE, CHR 0xEF,
      CHR 0xF0, CHR 0xF1, CHR 0xF2, CHR 0xF3, CHR 0xF4, CHR 0xF5, CHR 0xF6, CHR 0xF8,
      CHR 0xF9, CHR 0xFA, CHR 0xFB, CHR 0xFC, CHR 0xFD, CHR 0xFE]"

definition upper_letters :: string where
  "upper_letters = ''ABCDEFGHIJKLMNOPQRSTUVWXYZ'' @
     [CHR 0xC0, CHR 0xC1, CHR 0xC2, CHR 0xC3, CHR 0xC4, CHR 0xC5, CHR 0xC6, CHR 0xC7,
      CHR 0xC8, CHR 0xC9, CHR 0xCA, CHR 0xCB, CHR 0xCC, CHR 0xCD, CHR 0xCE, CHR 0xCF,
      CHR 0xD0, CHR 0xD1, CHR 0xD2, CHR 0xD3, CHR 0xD4, CHR 0xD5, CHR 0xD6, CHR 0xD8,
      CHR 0xD9, CHR 0xDA, CHR 0xDB, CHR 0xDC, CHR 0xDD, CHR 0xDE]"

definition to_upper :: "char \<Rightarrow> char" where
  "to_upper c = (case map_of (zip lower_letters upper_letters) c of Some u \<Rightarrow> u | None \<Rightarrow> c)"

definition to_lower :: "char \<Rightarrow> char" where
  "to_lower c = (case map_of (zip upper_letters lower_letters) c of Some l \<Rightarrow> l | None \<Rightarrow> c)"

text \<open>
  The cased characters: the letters above, and five lower case characters without an
  upper case partner among the 256 code points (U+00AA, U+00B5, U+00BA, U+00DF, U+00FF).
\<close>

definition is_cased :: "char \<Rightarrow> bool" where
  "is_cased c = (c \<in> set lower_letters \<or> c \<in> set upper_letters
                 \<or> c \<in> set [CHR 0xAA, CHR 0xB5, CHR 0xBA, CHR 0xDF, CHR 0xFF])"

text \<open>
  The title case of one character. U+00DF becomes the two letters \<open>Ss\<close>. The title
  case of U+00B5 and of U+00FF is U+039C and U+0178, which a character of this type
  cannot hold: the two are left as they are.
\<close>

definition to_title :: "char \<Rightarrow> string" where
  "to_title c = (if c = CHR 0xDF then ''Ss'' else [to_upper c])"

text \<open>
  \<open>str.title()\<close>: a character that follows a cased character is put in lower case,
  any other character in title case; the flag says whether the previous character was
  cased.
\<close>

fun title_from :: "bool \<Rightarrow> string \<Rightarrow> string" where
  "title_from prev [] = []"
| "title_from prev (c # cs) =
     (if prev then [to_lower c] else to_title c) @ title_from (is_cased c) cs"

text \<open>\<open>re.sub(r'\s+', ' ', s)\<close>; the flag says whether the previous character was white space.\<close>

fun collapse_from :: "bool \<Rightarrow> string \<Rightarrow> string" where
  "collapse_from prev [] = []"
| "collapse_from prev (c # cs) =
     (if is_space c then (if prev then collapse_from True cs else CHR '' '' # collapse_from True cs)
      else c # collapse_from False cs)"

text \<open>\<open>part.replace('-', ' ').title()\<close>, white space collapsed, stripped.\<close>

definition readable :: "string \<Rightarrow> string" where
  "readable part =
     strip (collapse_from False
       (title_from False (map (\<lambda>c. if c = CHR ''-'' then CHR '' '' else c) part)))"

text \<open>\<open>s.split('/')\<close>; the second argument is the part read so far.\<close>

fun split_slash :: "string \<Rightarrow> string \<Rightarrow> string list" where
  "split_slash cur [] = [cur]"
| "split_slash cur (c # cs) =
     (if c = CHR ''/'' then cur # split_slash [] cs else split_slash (cur @ [c]) cs)"

definition skipped_parts :: "string list" where
  "skipped_parts = [''nl'', ''p'', ''www.bol.com'', ''https:'', ''http:'']"

text \<open>The fallback loop over the parts of the address.\<close>

fun first_named_part :: "string list \<Rightarrow> string option" where
  "first_named_part [] = None"
| "first_named_part (part # parts) =
     (if part \<noteq> [] \<and> \<not> isdigit part \<and> 5 < length part \<and> part \<notin> set skipped_parts
      then Some (readable part)
      else first_named_part parts)"

definition extract_name_from_url :: "string \<Rightarrow> string" where
  "extract_name_from_url product_url =
     (case search_slug product_url of
        Some product_slug \<Rightarrow> readable product_slug
      | None \<Rightarrow>
          (case first_named_part (split_slash [] product_url) of
             Some name \<Rightarrow> name
           | None \<Rightarrow> ''Product from URL''))"

section \<open>The store and its callers\<close>

text \<open>The rows of the two tables; a nullable column is an option.\<close>

record tracked_row =
  t_id :: int
  t_keyword :: string
  t_product_id :: string
  t_product_url :: string
  t_product_name :: "string option"
  t_active :: bool
  t_created_at :: string
  t_stop_after_days :: "int option"
  t_daily_scheduler :: bool

record history_row =
  h_keyword :: string
  h_product_id :: string
  h_product_name :: string
  h_position :: "int option"
  h_page_product :: "int option"
  h_date :: string

record db =
  tracked_products :: "tracked_row list"
  product_tracking :: "history_row list"
  last_tracked_id :: int

definition save_to_db :: "env \<Rightarrow> db \<Rightarrow> string \<Rightarrow> string \<Rightarrow> string \<Rightarrow> int option \<Rightarrow> int option \<Rightarrow> db" where
  "save_to_db env d keyword product_id product_name pos pp =
     d\<lparr>product_tracking := product_tracking d @
         [\<lparr>h_keyword = keyword, h_product_id = product_id, h_product_name = product_name,
           h_position = pos, h_page_product = pp, h_date = now_str env\<rparr>]\<rparr>"

text \<open>\<open>UPDATE tracked_products SET product_name = ? WHERE id = ?\<close>.\<close>

definition update_product_name :: "db \<Rightarrow> int \<Rightarrow> string \<Rightarrow> db" where
  "update_product_name d tid name =
     d\<lparr>tracked_products :=
         map (\<lambda>r. if t_id r = tid then r\<lparr>t_product_name := Some name\<rparr> else r) (tracked_products d)\<rparr>"

text \<open>The name of a located product when it is usable: present, not empty, not the sentinel.\<close>

definition located_name :: "ranking \<Rightarrow> string option" where
  "located_name r =
     (case product r of
        None \<Rightarrow> None
      | Some p \<Rightarrow>
          if prod_name p \<noteq> [] \<and> prod_name p \<noteq> ''Unknown Product'' then Some (prod_name p)
          else None)"

record created =
  c_id :: int
  c_keyword :: string
  c_product_id :: string
  c_product_url :: string

text \<open>
  \<open>add_tracked_product\<close>: the identifier is derived first, outside any handler; the
  ranking lookup that follows is inside a handler that ignores every exception.
\<close>

definition add_tracked_product :: "env \<Rightarrow> db \<Rightarrow> string \<Rightarrow> string \<Rightarrow> int option
                                    \<Rightarrow> (error + created) \<times> db \<times> fetch_log" where
  "add_tracked_product env d keyword product_url stop_after_days =
     (case get_product_id product_url of
        Inl e \<Rightarrow> (Inl e, d, [])
      | Inr product_id \<Rightarrow>
          (case (case find_product_ranking env keyword product_id 1 of
                   Inl e \<Rightarrow> (extract_name_from_url product_url, [])
                 | Inr (result, log) \<Rightarrow>
                     (case located_name result of
                        Some n \<Rightarrow> (n, log)
                      | None \<Rightarrow> (extract_name_from_url product_url, log))) of
             (product_name, log) \<Rightarrow>
               (Inr \<lparr>c_id = last_tracked_id d + 1, c_keyword = keyword,
                     c_product_id = product_id, c_product_url = product_url\<rparr>,
                d\<lparr>tracked_products := tracked_products d @
                      [\<lparr>t_id = last_tracked_id d + 1, t_keyword = keyword,
                        t_product_id = product_id, t_product_url = product_url,
                        t_product_name = Some product_name, t_active = True,
                        t_created_at = now_str env, t_stop_after_days = stop_after_days,
                        t_daily_scheduler = False\<rparr>],
                  last_tracked_id := last_tracked_id d + 1\<rparr>,
                log)))"

datatype check_outcome =
    Checked int string string "int option" int
  | Check_Error int string string error

text \<open>
  The ranking check \<open>run_scheduled_checks\<close> makes for one row that is not expired
  (the \<open>try\<close> block of its loop).
\<close>

definition stored_or_url_name :: "tracked_row \<Rightarrow> string" where
  "stored_or_url_name row =
     (if \<not> truthy (t_product_name row) \<or> t_product_name row = Some ''None''
      then extract_name_from_url (t_product_url row)
      else the (t_product_name row))"

definition name_to_store :: "tracked_row \<Rightarrow> ranking \<Rightarrow> string" where
  "name_to_store row r =
     (case located_name r of
        Some n \<Rightarrow> n
      | None \<Rightarrow> stored_or_url_name row)"

definition scheduled_check :: "env \<Rightarrow> db \<Rightarrow> tracked_row \<Rightarrow> check_outcome \<times> db \<times> fetch_log" where
  "scheduled_check env d row =
     (case find_product_ranking env (t_keyword row) (t_product_id row) 50 of
        Inl e \<Rightarrow> (Check_Error (t_id row) (t_keyword row) (t_product_id row) e, d, [])
      | Inr (r, log) \<Rightarrow>
          (Checked (t_id row) (t_keyword row) (t_product_id row) (position r) (total_found r),
           (if \<not> truthy (t_product_name row) \<and> product r \<noteq> None
            then update_product_name
                   (save_to_db env d (t_keyword row) (t_product_id row) (name_to_store row r)
                      (position r) (page_product r))
                   (t_id row) (prod_name (the (product r)))
            else save_to_db env d (t_keyword row) (t_product_id row) (name_to_store row r)
                   (position r) (page_product r)),
           log))"

section \<open>The recurring trigger\<close>

text \<open>
  A date and time as \<open>datetime.now(self.dutch_tz)\<close> returns it: the fields of the
  local date and time of day (the day as its ordinal), and the offset from UTC, in
  seconds, of the fixed-offset time zone object that \<open>pytz\<close> attaches to the value.
  \<open>replace\<close> and \<open>+ timedelta\<close> keep that object, and the scheduler never
  converts a value to the zone again (it calls neither \<open>localize\<close> nor
  \<open>normalize\<close>).
\<close>

record datetime =
  day :: int
  hour :: nat
  minute :: nat
  second :: nat
  microsecond :: nat
  utcoffset :: int

text \<open>
  The time zone database, for one zone: the offset in force at an instant. The instant
  is given in seconds of UTC, counted from 00:00 of the day with ordinal 0.
\<close>

type_synonym zone = "int \<Rightarrow> int"

text \<open>The instant a value denotes (whole seconds).\<close>

definition utc_seconds :: "datetime \<Rightarrow> int" where
  "utc_seconds d =
     day d * 86400 + int (hour d) * 3600 + int (minute d) * 60 + int (second d) - utcoffset d"

text \<open>
  \<open>datetime.now(tz)\<close> when the clock reads the given seconds of UTC and microseconds:
  the local fields at the offset in force, and that offset.
\<close>

definition now_in :: "zone \<Rightarrow> int \<Rightarrow> nat \<Rightarrow> datetime" where
  "now_in tz u us =
     \<lparr>day = (u + tz u) div 86400,
      hour = nat (((u + tz u) mod 86400) div 3600),
      minute = nat (((u + tz u) mod 3600) div 60),
      second = nat ((u + tz u) mod 60),
      microsecond = us,
      utcoffset = tz u\<rparr>"

text \<open>
  Specification side: the date and time the clocks of the zone show at the instant a
  value denotes.
\<close>

definition wall_clock :: "zone \<Rightarrow> datetime \<Rightarrow> datetime" where
  "wall_clock tz d = now_in tz (utc_seconds d) (microsecond d)"

text \<open>
  The comparison of two values that carry the same time zone object: Python compares
  the fields and leaves the offset out.
\<close>

definition dt_less :: "datetime \<Rightarrow> datetime \<Rightarrow> bool" where
  "dt_less a b =
     (day a < day b \<or> (day a = day b \<and>
       (hour a < hour b \<or> (hour a = hour b \<and>
         (minute a < minute b \<or> (minute a = minute b \<and>
           (second a < second b \<or> (second a = second b \<and>
             microsecond a < microsecond b))))))))"

definition dt_ge :: "datetime \<Rightarrow> datetime \<Rightarrow> bool" where
  "dt_ge a b = (\<not> dt_less a b)"

text \<open>\<open>d.replace(hour=9, minute=0, second=0, microsecond=0)\<close>.\<close>

definition at_nine :: "datetime \<Rightarrow> datetime" where
  "at_nine d = d\<lparr>hour := 9, minute := 0, second := 0, microsecond := 0\<rparr>"

text \<open>\<open>d + timedelta(days=1)\<close>.\<close>

definition plus_one_day :: "datetime \<Rightarrow> datetime" where
  "plus_one_day d = d\<lparr>day := day d + 1\<rparr>"

text \<open>\<open>_get_next_run_time\<close>, from the value its call of \<open>datetime.now\<close> returned.\<close>

definition get_next_run_time :: "datetime \<Rightarrow> datetime" where
  "get_next_run_time now_dutch =
     (if dt_ge now_dutch (at_nine now_dutch) then at_nine (plus_one_day now_dutch)
      else at_nine now_dutch)"

text \<open>
  Europe/Amsterdam in the time zone database, for the instants of 2024: one hour east of
  UTC, and two hours from 2024-03-31 01:00 UTC (ordinal 738976) to 2024-10-27 01:00 UTC
  (ordinal 739186).
\<close>

definition amsterdam_2024 :: zone where
  "amsterdam_2024 u =
     (if 738976 * 86400 + 3600 \<le> u \<and> u < 739186 * 86400 + 3600 then 7200 else 3600)"

text \<open>
  The scheduler as a machine. Every thread that runs \<open>_scheduler_loop\<close> is at one of
  these points: the \<open>while self.running\<close> test, the start of the \<open>try\<close> body (the
  scheduling arithmetic), inside \<open>time.sleep(seconds_until_run)\<close>, the
  \<open>if self.running\<close> test after the sleep, the call of \<open>_run_daily_checks\<close>,
  inside the one-hour \<open>time.sleep(3600)\<close> of the handler, or past the loop.
\<close>

datatype point = At_while | In_try | Sleeping | At_recheck | Run_checks | Backoff | Exited

text \<open>
  The state: the flag \<open>self.running\<close>, which all threads share; the loop threads
  started so far, each with the point it is at; and, as a ghost record, the threads
  that called \<open>_run_daily_checks\<close>, in the order of the calls.
\<close>

record scheduler =
  running :: bool
  threads :: "point list"
  batch_runs :: "nat list"

text \<open>The scheduler object after \<open>__init__\<close>.\<close>

definition initial_scheduler :: scheduler where
  "initial_scheduler = \<lparr>running = False, threads = [], batch_runs = []\<rparr>"

text \<open>
  One step of a loop thread from a point, given the flag as the thread reads it. The
  first argument is what the scheduling arithmetic of the iteration gives (an exception,
  or the time until the next run); only the step from \<open>In_try\<close> reads it.
\<close>

definition loop_step :: "error + int \<Rightarrow> bool \<Rightarrow> point \<Rightarrow> point" where
  "loop_step seconds_until_run flag pt =
     (case pt of
        At_while \<Rightarrow> if flag then In_try else Exited
      | In_try \<Rightarrow>
          (case seconds_until_run of
             Inl e \<Rightarrow> Backoff
           | Inr secs \<Rightarrow> if 0 < secs then Sleeping else At_recheck)
      | Sleeping \<Rightarrow> At_recheck
      | At_recheck \<Rightarrow> if flag then Run_checks else At_while
      | Run_checks \<Rightarrow> At_while
      | Backoff \<Rightarrow> At_while
      | Exited \<Rightarrow> Exited)"

text \<open>
  A step of thread \<open>i\<close>; the step from \<open>Run_checks\<close> is the call of the batch
  routine.
\<close>

definition thread_step :: "nat \<Rightarrow> error + int \<Rightarrow> scheduler \<Rightarrow> scheduler" where
  "thread_step i seconds_until_run s =
     (if i < length (threads s) then
        s\<lparr>threads := (threads s)[i := loop_step seconds_until_run (running s) (threads s ! i)],
          batch_runs := (if threads s ! i = Run_checks then batch_runs s @ [i]
                         else batch_runs s)\<rparr>
      else s)"

text \<open>
  \<open>start_scheduler\<close>: nothing when the flag is set; otherwise it sets the flag and
  starts a new loop thread. It does not look at the threads started before.
\<close>

definition start_scheduler :: "scheduler \<Rightarrow> scheduler" where
  "start_scheduler s =
     (if running s then s else s\<lparr>running := True, threads := threads s @ [At_while]\<rparr>)"

text \<open>
  \<open>stop_scheduler\<close>: it clears the flag and waits for the thread at most five
  seconds (\<open>join(timeout=5)\<close>); a thread that sleeps longer is left where it is.
\<close>

definition stop_scheduler :: "scheduler \<Rightarrow> scheduler" where
  "stop_scheduler s = s\<lparr>running := False\<rparr>"

text \<open>
  An interleaving: calls of \<open>start_scheduler\<close> and \<open>stop_scheduler\<close> by the
  request handlers, and steps of the loop threads.
\<close>

datatype action = Start | Stop | Step nat "error + int"

fun run :: "action list \<Rightarrow> scheduler \<Rightarrow> scheduler" where
  "run [] s = s"
| "run (Start # as) s = run as (start_scheduler s)"
| "run (Stop # as) s = run as (stop_scheduler s)"
| "run (Step i r # as) s = run as (thread_step i r s)"

section \<open>Concrete pages and environments\<close>

definition blank :: element where
  "blank = \<lparr>tag = ''div'', href = None, title = None, aria_label = None, data_testid = None,
            data_product_id = None, text_content = [], h2_text = None, h3_text = None,
            span_text = None, parent_h2_text = None, parent_h3_text = None,
            parent_span_text = None\<rparr>"

definition lenor_id :: string where
  "lenor_id = ''9300000170626119''"

definition lenor_url :: string where
  "lenor_url = ''https://www.bol.com/nl/nl/p/lenor-geurbooster/9300000170626119/''"

definition lenor_link :: element where
  "lenor_link = blank\<lparr>tag := ''a'', href := Some ''/nl/nl/p/lenor-geurbooster/9300000170626119/''\<rparr>"

definition lenor_card :: element where
  "lenor_card = blank\<lparr>data_product_id := Some ''9300000170626119'',
                       span_text := Some ''Lenor Geurbooster''\<rparr>"

definition robijn_link :: element where
  "robijn_link = blank\<lparr>tag := ''a'', href := Some ''/nl/nl/p/robijn-wasmiddel/9300000012345678/'',
                        title := Some ''Robijn Wasmiddel''\<rparr>"

definition lenor_product :: product where
  "lenor_product = \<lparr>prod_id = ''9300000170626119'', prod_name = ''Unknown Product'',
     prod_url = ''https://www.bol.com/nl/nl/p/lenor-geurbooster/9300000170626119/''\<rparr>"

definition robijn_product :: product where
  "robijn_product = \<lparr>prod_id = ''9300000012345678'', prod_name = ''Robijn Wasmiddel'',
     prod_url = ''https://www.bol.com/nl/nl/p/robijn-wasmiddel/9300000012345678/''\<rparr>"

text \<open>A parser that knows three bodies and raises on any other.\<close>

definition demo_parse :: "string \<Rightarrow> error + soup" where
  "demo_parse html =
     (if html = ''first'' then Inr [robijn_link]
      else if html = ''second'' then Inr [robijn_link, lenor_link]
      else if html = ''empty'' then Inr []
      else Inl OtherException)"

text \<open>
  The lightweight fetch serves two pages and answers 404 after them; no browser
  automation is installed.
\<close>

definition mobile_env :: env where
  "mobile_env =
     \<lparr>parse_html = demo_parse,
      session_get = (\<lambda>keyword i. if i = 1 then Inr (200, ''first'')
                                  else if i = 2 then Inr (200, ''second'')
                                  else Inr (404, [])),
      has_selenium = False,
      chrome_start = None,
      driver_page_source = (\<lambda>keyword i. Inl WebDriverException),
      now_str = ''2025-01-01 09:00:00''\<rparr>"

text \<open>
  The lightweight fetch is refused with 403; the browser renders two pages and an empty
  third one.
\<close>

definition browser_env :: env where
  "browser_env =
     \<lparr>parse_html = demo_parse,
      session_get = (\<lambda>keyword i. Inr (403, [])),
      has_selenium = True,
      chrome_start = None,
      driver_page_source = (\<lambda>keyword i. if i = 1 then Inr ''first''
                                         else if i = 2 then Inr ''second''
                                         else Inr ''empty''),
      now_str = ''2025-01-01 09:00:00''\<rparr>"

text \<open>
  The lightweight fetch is refused with 403; the browser renders one page and raises on
  the second.
\<close>

definition flaky_env :: env where
  "flaky_env =
     \<lparr>parse_html = demo_parse,
      session_get = (\<lambda>keyword i. Inr (403, [])),
      has_selenium = True,
      chrome_start = None,
      driver_page_source = (\<lambda>keyword i. if i = 1 then Inr ''first'' else Inl WebDriverException),
      now_str = ''2025-01-01 09:00:00''\<rparr>"

text \<open>Every request raises and no browser automation is installed.\<close>

definition offline_env :: env where
  "offline_env =
     \<lparr>parse_html = demo_parse,
      session_get = (\<lambda>keyword i. Inl OtherException),
      has_selenium = False,
      chrome_start = None,
      driver_page_source = (\<lambda>keyword i. Inl WebDriverException),
      now_str = ''2025-01-01 09:00:00''\<rparr>"

definition empty_db :: db where
  "empty_db = \<lparr>tracked_products = [], product_tracking = [], last_tracked_id = 0\<rparr>"

definition labelled_row :: tracked_row where
  "labelled_row =
     \<lparr>t_id = 1, t_keyword = ''Lenor'', t_product_id = lenor_id, t_product_url = lenor_url,
      t_product_name = Some ''Wasparfum 6 x 235 g'', t_active = True,
      t_created_at = ''2025-01-01 08:00:00'', t_stop_after_days = None,
      t_daily_scheduler = True\<rparr>"

definition unnamed_row :: tracked_row where
  "unnamed_row = labelled_row\<lparr>t_product_name := None\<rparr>"

section \<open>The extractor keeps the first extraction of every identifier\<close>

lemma scan_keep_first: "scan f es ps seen = keep_first (List.map_filter f es) ps seen"
  by (induction es arbitrary: ps seen) (auto simp: List.map_filter_simps split: option.splits)

lemma keep_first_append:
  "keep_first (cs @ ds) ps seen = (case keep_first cs ps seen of (ps', seen') \<Rightarrow> keep_first ds ps' seen')"
  by (induction cs arbitrary: ps seen) auto

lemma extract_keep_first: "extract_products doc = fst (keep_first (candidates doc) [] {})"
  by (simp add: extract_products_def candidates_def scan_keep_first keep_first_append split: prod.splits)

lemma keep_first_snoc:
  "keep_first (cs @ [c]) ps seen =
     (case keep_first cs ps seen of (ps', seen') \<Rightarrow>
        if prod_id c \<in> seen' then (ps', seen') else (ps' @ [c], insert (prod_id c) seen'))"
  by (simp add: keep_first_append split: prod.splits)

lemma keep_first_seen: "snd (keep_first cs [] {}) = set (map prod_id (fst (keep_first cs [] {})))"
  by (induction cs rule: rev_induct) (auto simp: keep_first_snoc split: prod.splits)

lemma keep_first_ids: "set (map prod_id (fst (keep_first cs [] {}))) = set (map prod_id cs)"
  using keep_first_seen[of cs]
  by (induction cs rule: rev_induct) (auto simp: keep_first_snoc keep_first_seen split: prod.splits)

lemma keep_first_distinct: "distinct (map prod_id (fst (keep_first cs [] {})))"
proof (induction cs rule: rev_induct)
  case Nil show ?case by simp
next
  case (snoc c cs)
  obtain ps seen where k: "keep_first cs [] {} = (ps, seen)" by (cases "keep_first cs [] {}")
  with keep_first_seen[of cs] have s: "seen = set (map prod_id ps)" by simp
  from snoc k s show ?case by (auto simp: keep_first_snoc)
qed

lemma keep_first_order:
  "map prod_id (fst (keep_first cs [] {})) = rev (remdups (rev (map prod_id cs)))"
proof (induction cs rule: rev_induct)
  case Nil show ?case by simp
next
  case (snoc c cs)
  obtain ps seen where k: "keep_first cs [] {} = (ps, seen)" by (cases "keep_first cs [] {}")
  with keep_first_seen[of cs] have s: "seen = set (map prod_id ps)" by simp
  from keep_first_ids[of cs] k have i: "set (map prod_id ps) = set (map prod_id cs)" by simp
  from snoc k s i show ?case by (auto simp: keep_first_snoc)
qed

lemma find_append:
  "find P (xs @ ys) = (case find P xs of None \<Rightarrow> find P ys | Some x \<Rightarrow> Some x)"
  by (induction xs) auto

lemma keep_first_first:
  "r \<in> set (fst (keep_first cs [] {})) \<Longrightarrow> first_with_id (prod_id r) cs = Some r"
proof (induction cs rule: rev_induct)
  case Nil then show ?case by simp
next
  case (snoc c cs)
  obtain ps seen where k: "keep_first cs [] {} = (ps, seen)" by (cases "keep_first cs [] {}")
  with keep_first_seen[of cs] have s: "seen = set (map prod_id ps)" by simp
  from keep_first_ids[of cs] k have i: "set (map prod_id ps) = set (map prod_id cs)" by simp
  show ?case
  proof (cases "r \<in> set ps")
    case True
    with snoc.IH k have "first_with_id (prod_id r) cs = Some r" by simp
    then show ?thesis by (simp add: first_with_id_def find_append)
  next
    case False
    with snoc.prems k s have rc: "r = c" and n: "prod_id c \<notin> set (map prod_id ps)"
      by (auto simp: keep_first_snoc split: if_splits)
    from n i have "prod_id c \<notin> prod_id ` set cs" by simp
    then have "\<forall>x\<in>set cs. prod_id x \<noteq> prod_id c" by (metis imageI)
    then have "find (\<lambda>p. prod_id p = prod_id c) cs = None"
      by (simp add: find_None_iff)
    with rc show ?thesis by (simp add: first_with_id_def find_append)
  qed
qed

text \<open>
  C4 (as amended). A single call of the extractor returns a sequence with no duplicate
  product identifiers; the identifiers come in the order of their first extraction, and the
  record kept for an identifier is its first one in extraction order: all qualifying
  hyperlinks in document order, followed by the elements that carry a product identifier
  attribute in document order.
\<close>

theorem extract_keeps_first_extraction:
  "distinct (map prod_id (extract_products doc))
   \<and> map prod_id (extract_products doc) = rev (remdups (rev (map prod_id (candidates doc))))
   \<and> (\<forall>r\<in>set (extract_products doc). first_with_id (prod_id r) (candidates doc) = Some r)"
  by (simp add: extract_keep_first keep_first_distinct keep_first_order keep_first_first)

theorem extract_keeps_first_extraction_witness:
  "extract_products [lenor_card, robijn_link, lenor_link, robijn_link] = [robijn_product, lenor_product]
   \<and> distinct (map prod_id (extract_products [lenor_card, robijn_link, lenor_link, robijn_link]))
   \<and> first_with_id lenor_id (candidates [lenor_card, robijn_link, lenor_link, robijn_link])
       = Some lenor_product"
proof -
  have e: "extract_products [lenor_card, robijn_link, lenor_link, robijn_link]
             = [robijn_product, lenor_product]"
    by code_simp
  have i: "prod_id lenor_product = lenor_id"
    by (simp add: lenor_product_def lenor_id_def)
  from extract_keeps_first_extraction[of "[lenor_card, robijn_link, lenor_link, robijn_link]"] e i
  show ?thesis by simp
qed

text \<open>
  The claim as written speaks of the first occurrence in document order. A card element
  that precedes a hyperlink with the same identifier is the first occurrence in the
  document, and the record kept is the hyperlink's: the hyperlink pass runs first.
\<close>

theorem first_document_occurrence_counterexample:
  "extract_products [lenor_card, lenor_link] = [lenor_product]
   \<and> first_with_id lenor_id (document_occurrences [lenor_card, lenor_link])
       = Some \<lparr>prod_id = lenor_id, prod_name = ''Lenor Geurbooster'',
               prod_url = ''https://www.bol.com/nl/nl/p/9300000170626119/''\<rparr>
   \<and> first_with_id lenor_id (document_occurrences [lenor_card, lenor_link])
       \<noteq> first_with_id lenor_id (extract_products [lenor_card, lenor_link])"
  by code_simp

section \<open>The page loops\<close>

lemma search_id_length: "search_id s = Some d \<Longrightarrow> 10 \<le> length d"
  by (induction s) (auto split: if_splits)

lemma link_record_id: "link_record e = Some p \<Longrightarrow> 10 \<le> length (prod_id p)"
  by (auto simp: link_record_def split: option.splits if_splits dest: search_id_length)

lemma card_record_id: "card_record e = Some p \<Longrightarrow> 10 \<le> length (prod_id p)"
  by (auto simp: card_record_def fullmatch_id_def split: option.splits if_splits)

lemma extract_products_candidate: "x \<in> set (extract_products doc) \<Longrightarrow> x \<in> set (candidates doc)"
proof -
  assume "x \<in> set (extract_products doc)"
  then have "first_with_id (prod_id x) (candidates doc) = Some x"
    by (simp add: extract_keep_first keep_first_first)
  then show ?thesis
    by (auto simp: first_with_id_def find_Some_iff)
qed

lemma extract_products_ids: "x \<in> set (extract_products doc) \<Longrightarrow> 10 \<le> length (prod_id x)"
proof -
  assume "x \<in> set (extract_products doc)"
  then have "x \<in> set (candidates doc)" by (rule extract_products_candidate)
  then show ?thesis
    by (auto simp: candidates_def List.map_filter_def dest: link_record_id card_record_id)
qed

lemma find_target_mem: "find_target tid ps n = Some m \<Longrightarrow> \<exists>x\<in>set ps. prod_id x = tid"
  by (induction ps arbitrary: n) (auto split: if_splits)

lemma mobile_records_target:
  assumes "mobile_records env kw i = Some ps" and "find_target tid ps n = Some m"
  shows "tid \<noteq> []"
proof -
  from assms(1) obtain doc where "ps = extract_products doc"
    by (auto simp: mobile_records_def extract_products_from_html_def split: sum.splits if_splits prod.splits)
  with find_target_mem[OF assms(2)] extract_products_ids show ?thesis by fastforce
qed

lemma browser_records_target:
  assumes "browser_records env kw i = Some ps" and "find_target tid ps n = Some m"
  shows "tid \<noteq> []"
proof -
  from assms(1) obtain doc where "ps = extract_products doc"
    by (auto simp: browser_records_def extract_products_from_html_def split: sum.splits if_splits prod.splits)
  with find_target_mem[OF assms(2)] extract_products_ids show ?thesis by fastforce
qed

lemma check_target_none: "find_target tid pp 1 = None \<Longrightarrow> check_target tid i ps pp ti = ti"
  by (simp add: check_target_def)

lemma check_target_some:
  "find_target tid pp 1 = Some m \<Longrightarrow> tid \<noteq> [] \<Longrightarrow>
   check_target tid i ps pp ti =
     \<lparr>found = True, target_page = Some i, position_on_page = Some m,
      target_page_product = Some (int (length ps) - int (length pp) + m)\<rparr>"
  by (simp add: check_target_def)

lemma mobile_page_some:
  "mobile_records env kw i = Some pp \<Longrightarrow>
   mobile_page env kw tid i ps ti =
     Inr (ps @ pp, check_target tid i (ps @ pp) pp ti, found (check_target tid i (ps @ pp) pp ti))"
  by (auto simp: mobile_records_def mobile_page_def split: sum.splits if_splits prod.splits)

lemma mobile_loop_fail:
  "mobile_records env kw i = None \<Longrightarrow>
   mobile_loop env kw tid (i # rest) ps ti log = (ps, ti, log @ [(Lightweight, i)])"
  by (auto simp: mobile_records_def mobile_page_def split: sum.splits if_splits prod.splits)

lemma browser_page_some:
  "browser_records env kw i = Some pp \<Longrightarrow>
   browser_page env kw tid i ps ti =
     Inr (ps @ pp, check_target tid i (ps @ pp) pp ti,
          found (check_target tid i (ps @ pp) pp ti) \<or> length pp = 0)"
  by (auto simp: browser_records_def browser_page_def split: sum.splits if_splits prod.splits)

lemma browser_loop_fail:
  "browser_records env kw i = None \<Longrightarrow>
   browser_loop env kw tid (i # rest) ps ti log = (ps, ti, log @ [(Rendered, i)])"
  by (auto simp: browser_records_def browser_page_def split: sum.splits if_splits prod.splits error.splits)

lemma all_records_Cons:
  "all_records recs (i # is) = (case recs i of None \<Rightarrow> [] | Some ps \<Rightarrow> ps) @ all_records recs is"
  by (simp add: all_records_def)

lemma all_records_append: "all_records recs (xs @ ys) = all_records recs xs @ all_records recs ys"
  by (simp add: all_records_def)

lemma length_all_records: "int (length (all_records recs is)) = sum_list (map (record_count recs) is)"
  by (induction "is") (auto simp: all_records_Cons all_records_def record_count_def split: option.splits)

lemma mobile_loop_scan:
  "list_all (scanned_without_match (mobile_records env kw) tid) pre \<Longrightarrow> \<not> found ti \<Longrightarrow>
   mobile_loop env kw tid (pre @ rest) ps ti log =
   mobile_loop env kw tid rest (ps @ all_records (mobile_records env kw) pre) ti
     (log @ map (Pair Lightweight) pre)"
proof (induction pre arbitrary: ps log)
  case Nil
  then show ?case by (simp add: all_records_def)
next
  case (Cons i pre)
  from Cons.prems(1) have h: "scanned_without_match (mobile_records env kw) tid i"
    and rest: "list_all (scanned_without_match (mobile_records env kw) tid) pre" by simp_all
  from h obtain pp where pp: "mobile_records env kw i = Some pp"
    and nf: "find_target tid pp 1 = None"
    by (auto simp: scanned_without_match_def split: option.splits)
  from Cons.IH[OF rest Cons.prems(2)] pp nf Cons.prems(2) show ?case
    by (simp add: mobile_page_some check_target_none all_records_Cons)
qed

lemma browser_loop_scan:
  "list_all (scanned_without_match (browser_records env kw) tid) pre \<Longrightarrow>
   list_all (nonempty_page (browser_records env kw)) pre \<Longrightarrow> \<not> found ti \<Longrightarrow>
   browser_loop env kw tid (pre @ rest) ps ti log =
   browser_loop env kw tid rest (ps @ all_records (browser_records env kw) pre) ti
     (log @ map (Pair Rendered) pre)"
proof (induction pre arbitrary: ps log)
  case Nil
  then show ?case by (simp add: all_records_def)
next
  case (Cons i pre)
  from Cons.prems(1,2) have h: "scanned_without_match (browser_records env kw) tid i"
    "nonempty_page (browser_records env kw) i"
    and rest: "list_all (scanned_without_match (browser_records env kw) tid) pre"
         "list_all (nonempty_page (browser_records env kw)) pre" by simp_all
  from h obtain pp where pp: "browser_records env kw i = Some pp"
    and nf: "find_target tid pp 1 = None" and ne: "pp \<noteq> []"
    by (auto simp: scanned_without_match_def nonempty_page_def split: option.splits)
  from Cons.IH[OF rest Cons.prems(3)] pp nf ne Cons.prems(3) show ?case
    by (simp add: browser_page_some check_target_none all_records_Cons)
qed

lemma mobile_first_match:
  assumes "first_match (mobile_records env kw) tid p m" and "1 \<le> p" and "p \<le> k"
  shows "mobile_loop env kw tid [1..k] [] no_target [] =
           (all_records (mobile_records env kw) [1..p],
            \<lparr>found = True, target_page = Some p, position_on_page = Some m,
             target_page_product = Some (records_before (mobile_records env kw) p + m)\<rparr>,
            map (Pair Lightweight) [1..p])"
proof -
  from assms(1) obtain pp where pre: "list_all (scanned_without_match (mobile_records env kw) tid) [1..p - 1]"
    and pp: "mobile_records env kw p = Some pp" and ft: "find_target tid pp 1 = Some m"
    by (auto simp: first_match_def split: option.splits)
  from mobile_records_target[OF pp ft] have tid: "tid \<noteq> []" .
  have split: "[1..k] = [1..p - 1] @ p # [p + 1..k]" using assms(2,3) by (rule upto_split3)
  have p1: "[1..p] = [1..p - 1] @ [p]" using assms(2) by (rule upto_rec2)
  have nf: "\<not> found no_target" by (simp add: no_target_def)
  show ?thesis
    unfolding split mobile_loop_scan[OF pre nf]
    using pp ft tid
    by (simp add: mobile_page_some check_target_some p1 all_records_append all_records_Cons
        all_records_def[of _ "[]"] records_before_def length_all_records[symmetric])
qed

lemma browser_first_match:
  assumes "first_match (browser_records env kw) tid p m" and "1 \<le> p" and "p \<le> k"
    and "list_all (nonempty_page (browser_records env kw)) [1..p - 1]"
  shows "browser_loop env kw tid [1..k] [] no_target [] =
           (all_records (browser_records env kw) [1..p],
            \<lparr>found = True, target_page = Some p, position_on_page = Some m,
             target_page_product = Some (records_before (browser_records env kw) p + m)\<rparr>,
            map (Pair Rendered) [1..p])"
proof -
  from assms(1) obtain pp where pre: "list_all (scanned_without_match (browser_records env kw) tid) [1..p - 1]"
    and pp: "browser_records env kw p = Some pp" and ft: "find_target tid pp 1 = Some m"
    by (auto simp: first_match_def split: option.splits)
  from browser_records_target[OF pp ft] have tid: "tid \<noteq> []" .
  have split: "[1..k] = [1..p - 1] @ p # [p + 1..k]" using assms(2,3) by (rule upto_split3)
  have p1: "[1..p] = [1..p - 1] @ [p]" using assms(2) by (rule upto_rec2)
  have nf: "\<not> found no_target" by (simp add: no_target_def)
  show ?thesis
    unfolding split browser_loop_scan[OF pre assms(4) nf]
    using pp ft tid
    by (simp add: browser_page_some check_target_some p1 all_records_append all_records_Cons
        all_records_def[of _ "[]"] records_before_def length_all_records[symmetric])
qed

text \<open>
  C1. When the target first appears on page \<open>p\<close> (within the page limit) at position
  \<open>m\<close> of that page's extracted records, the absolute position returned by the locator
  is the count of the records of all pages before \<open>p\<close>, plus \<open>m\<close>. This holds for a
  match of the lightweight strategy, and for a match of the rendered strategy when the
  lightweight one did not match (the rendered loop reaches page \<open>p\<close> when no earlier
  page was empty).
\<close>

theorem absolute_position:
  assumes "1 \<le> p" and "p \<le> k"
  shows "(first_match (mobile_records env kw) tid p m \<longrightarrow>
           (\<exists>r log. find_product_ranking env kw tid k = Inr (r, log)
              \<and> position r = Some m \<and> page r = Some p
              \<and> page_product r = Some (records_before (mobile_records env kw) p + m)))
       \<and> (mobile_missed env kw tid k \<and> has_selenium env \<and> chrome_start env = None
            \<and> first_match (browser_records env kw) tid p m
            \<and> list_all (nonempty_page (browser_records env kw)) [1..p - 1] \<longrightarrow>
           (\<exists>r log. find_product_ranking env kw tid k = Inr (r, log)
              \<and> position r = Some m \<and> page r = Some p
              \<and> page_product r = Some (records_before (browser_records env kw) p + m)))"
proof (intro conjI impI)
  assume fm: "first_match (mobile_records env kw) tid p m"
  show "\<exists>r log. find_product_ranking env kw tid k = Inr (r, log)
              \<and> position r = Some m \<and> page r = Some p
              \<and> page_product r = Some (records_before (mobile_records env kw) p + m)"
    by (simp add: find_product_ranking_def search_products_mobile_def
        mobile_first_match[OF fm assms])
next
  assume h: "mobile_missed env kw tid k \<and> has_selenium env \<and> chrome_start env = None
            \<and> first_match (browser_records env kw) tid p m
            \<and> list_all (nonempty_page (browser_records env kw)) [1..p - 1]"
  then have fm: "first_match (browser_records env kw) tid p m"
    and ne: "list_all (nonempty_page (browser_records env kw)) [1..p - 1]" by simp_all
  obtain mp mti mlog where m: "mobile_loop env kw tid [1..k] [] no_target [] = (mp, mti, mlog)"
    by (cases "mobile_loop env kw tid [1..k] [] no_target []")
  with h have nf: "\<not> found mti" by (simp add: mobile_missed_def search_products_mobile_def)
  from fm obtain pp where "browser_records env kw p = Some pp" "find_target tid pp 1 = Some m"
    by (auto simp: first_match_def split: option.splits)
  then have "pp \<noteq> []" by auto
  then have "all_records (browser_records env kw) [1..p] \<noteq> []"
    using \<open>browser_records env kw p = Some pp\<close> assms(1)
    by (simp add: upto_rec2 all_records_append all_records_Cons)
  with h m nf show "\<exists>r log. find_product_ranking env kw tid k = Inr (r, log)
              \<and> position r = Some m \<and> page r = Some p
              \<and> page_product r = Some (records_before (browser_records env kw) p + m)"
    by (simp add: find_product_ranking_def search_products_mobile_def search_products_browser_def
        browser_first_match[OF fm assms ne])
qed

theorem absolute_position_witness:
  "first_match (mobile_records mobile_env ''Lenor'') lenor_id 2 2
   \<and> records_before (mobile_records mobile_env ''Lenor'') 2 = 1
   \<and> (\<exists>r log. find_product_ranking mobile_env ''Lenor'' lenor_id 3 = Inr (r, log)
         \<and> position r = Some 2 \<and> page r = Some 2 \<and> page_product r = Some 3)
   \<and> mobile_missed browser_env ''Lenor'' lenor_id 3
   \<and> first_match (browser_records browser_env ''Lenor'') lenor_id 2 2
   \<and> records_before (browser_records browser_env ''Lenor'') 2 = 1
   \<and> (\<exists>r log. find_product_ranking browser_env ''Lenor'' lenor_id 3 = Inr (r, log)
         \<and> position r = Some 2 \<and> page r = Some 2 \<and> page_product r = Some 3)"
proof -
  have m: "first_match (mobile_records mobile_env ''Lenor'') lenor_id 2 2"
    by code_simp
  have mb: "records_before (mobile_records mobile_env ''Lenor'') 2 = 1"
    by code_simp
  have b: "mobile_missed browser_env ''Lenor'' lenor_id 3 \<and> has_selenium browser_env
            \<and> chrome_start browser_env = None
            \<and> first_match (browser_records browser_env ''Lenor'') lenor_id 2 2
            \<and> list_all (nonempty_page (browser_records browser_env ''Lenor'')) [1..2 - 1]"
    by code_simp
  have bb: "records_before (browser_records browser_env ''Lenor'') 2 = 1"
    by code_simp
  from absolute_position[of 2 3 mobile_env "''Lenor''" lenor_id 2] m mb
    absolute_position[of 2 3 browser_env "''Lenor''" lenor_id 2] b bb
  show ?thesis by simp
qed

section \<open>Page requests\<close>

lemma pages_of_Nil: "pages_of s [] = []"
  by (simp add: pages_of_def)

lemma pages_of_append: "pages_of s (xs @ ys) = pages_of s xs @ pages_of s ys"
  by (simp add: pages_of_def)

lemma pages_of_same: "pages_of s (map (Pair s) xs) = xs"
  by (induction xs) (auto simp: pages_of_def)

lemma pages_of_other: "s \<noteq> t \<Longrightarrow> pages_of s (map (Pair t) xs) = []"
  by (induction xs) (auto simp: pages_of_def)

lemma check_target_page:
  "found (check_target tid i ps pp ti) \<Longrightarrow> \<not> found ti \<Longrightarrow>
   target_page (check_target tid i ps pp ti) = Some i"
  by (auto simp: check_target_def split: if_splits option.splits)

lemma mobile_page_result:
  "mobile_page env kw tid i ps ti = Inr (ps1, ti1, stop) \<Longrightarrow>
   (\<not> stop \<longrightarrow> \<not> found ti1) \<and> (\<not> found ti \<longrightarrow> found ti1 \<longrightarrow> target_page ti1 = Some i)"
  by (auto simp: mobile_page_def check_target_page split: sum.splits prod.splits if_splits)

lemma browser_page_result:
  "browser_page env kw tid i ps ti = Inr (ps1, ti1, stop) \<Longrightarrow>
   (\<not> stop \<longrightarrow> \<not> found ti1) \<and> (\<not> found ti \<longrightarrow> found ti1 \<longrightarrow> target_page ti1 = Some i)"
  by (auto simp: browser_page_def check_target_page split: sum.splits prod.splits if_splits)

lemma mobile_loop_log:
  "mobile_loop env kw tid [i..k] ps ti log = (ps', ti', log') \<Longrightarrow>
   \<exists>j. i - 1 \<le> j \<and> j \<le> max k (i - 1) \<and> log' = log @ map (Pair Lightweight) [i..j]
      \<and> (\<not> found ti \<longrightarrow> found ti' \<longrightarrow> target_page ti' = Some j \<and> i \<le> j)"
proof (induction i k arbitrary: ps ti log rule: upto.induct)
  case (1 i k)
  show ?case
  proof (cases "i \<le> k")
    case False
    with "1.prems" have "ps' = ps" "ti' = ti" "log' = log" by simp_all
    with False show ?thesis by (intro exI[of _ "i - 1"]) simp
  next
    case True
    then have up: "[i..k] = i # [i + 1..k]" by (rule upto_rec1)
    show ?thesis
    proof (cases "mobile_page env kw tid i ps ti")
      case (Inl e)
      with "1.prems" up have "ti' = ti" "log' = log @ [(Lightweight, i)]" by simp_all
      with True show ?thesis by (intro exI[of _ i]) simp
    next
      case (Inr res)
      obtain ps1 ti1 stop where res: "res = (ps1, ti1, stop)" by (cases res)
      note pr = mobile_page_result[OF Inr[unfolded res]]
      show ?thesis
      proof (cases stop)
        case True
        with "1.prems" up Inr res have "ti' = ti1" "log' = log @ [(Lightweight, i)]" by simp_all
        with \<open>i \<le> k\<close> pr show ?thesis by (intro exI[of _ i]) simp
      next
        case False
        with "1.prems" up Inr res
        have "mobile_loop env kw tid [i + 1..k] ps1 ti1 (log @ [(Lightweight, i)]) = (ps', ti', log')"
          by simp
        from "1.IH"[OF \<open>i \<le> k\<close> this] obtain j where j: "i \<le> j" "j \<le> max k i"
          "log' = (log @ [(Lightweight, i)]) @ map (Pair Lightweight) [i + 1..j]"
          "\<not> found ti1 \<longrightarrow> found ti' \<longrightarrow> target_page ti' = Some j \<and> i + 1 \<le> j" by auto
        from j(1) have "[i..j] = i # [i + 1..j]" by (rule upto_rec1)
        with j pr False \<open>i \<le> k\<close> show ?thesis by (intro exI[of _ j]) auto
      qed
    qed
  qed
qed

lemma browser_loop_log:
  "browser_loop env kw tid [i..k] ps ti log = (ps', ti', log') \<Longrightarrow>
   \<exists>j. i - 1 \<le> j \<and> j \<le> max k (i - 1) \<and> log' = log @ map (Pair Rendered) [i..j]
      \<and> (\<not> found ti \<longrightarrow> found ti' \<longrightarrow> target_page ti' = Some j \<and> i \<le> j)"
proof (induction i k arbitrary: ps ti log rule: upto.induct)
  case (1 i k)
  show ?case
  proof (cases "i \<le> k")
    case False
    with "1.prems" have "ps' = ps" "ti' = ti" "log' = log" by simp_all
    with False show ?thesis by (intro exI[of _ "i - 1"]) simp
  next
    case True
    then have up: "[i..k] = i # [i + 1..k]" by (rule upto_rec1)
    show ?thesis
    proof (cases "browser_page env kw tid i ps ti")
      case (Inl e)
      with "1.prems" up have "ti' = ti" "log' = log @ [(Rendered, i)]"
        by (simp_all split: error.splits)
      with True show ?thesis by (intro exI[of _ i]) simp
    next
      case (Inr res)
      obtain ps1 ti1 stop where res: "res = (ps1, ti1, stop)" by (cases res)
      note pr = browser_page_result[OF Inr[unfolded res]]
      show ?thesis
      proof (cases stop)
        case True
        with "1.prems" up Inr res have "ti' = ti1" "log' = log @ [(Rendered, i)]" by simp_all
        with \<open>i \<le> k\<close> pr show ?thesis by (intro exI[of _ i]) simp
      next
        case False
        with "1.prems" up Inr res
        have "browser_loop env kw tid [i + 1..k] ps1 ti1 (log @ [(Rendered, i)]) = (ps', ti', log')"
          by simp
        from "1.IH"[OF \<open>i \<le> k\<close> this] obtain j where j: "i \<le> j" "j \<le> max k i"
          "log' = (log @ [(Rendered, i)]) @ map (Pair Rendered) [i + 1..j]"
          "\<not> found ti1 \<longrightarrow> found ti' \<longrightarrow> target_page ti' = Some j \<and> i + 1 \<le> j" by auto
        from j(1) have "[i..j] = i # [i + 1..j]" by (rule upto_rec1)
        with j pr False \<open>i \<le> k\<close> show ?thesis by (intro exI[of _ j]) auto
      qed
    qed
  qed
qed


text \<open>
  C2. With page limit \<open>k\<close>, each strategy requests at most \<open>k\<close> pages (none when
  \<open>k\<close> is negative), and when the target is matched on page \<open>p\<close> the strategy that
  matched requested exactly the pages 1 to \<open>p\<close>, with nothing after the matching
  page; after a match of the lightweight strategy the rendered one requests nothing.
\<close>

theorem page_fetch_bound:
  "\<exists>r log. find_product_ranking env kw tid k = Inr (r, log)
     \<and> int (length (pages_of Lightweight log)) \<le> max 0 k
     \<and> int (length (pages_of Rendered log)) \<le> max 0 k
     \<and> (\<forall>p. page r = Some p \<longrightarrow>
           pages_of (if mobile_missed env kw tid k then Rendered else Lightweight) log = [1..p]
           \<and> int (length (pages_of (if mobile_missed env kw tid k then Rendered else Lightweight) log)) = p
           \<and> (\<not> mobile_missed env kw tid k \<longrightarrow> pages_of Rendered log = []))"
proof -
  obtain mp mti mlog where m: "mobile_loop env kw tid [1..k] [] no_target [] = (mp, mti, mlog)"
    by (cases "mobile_loop env kw tid [1..k] [] no_target []")
  from mobile_loop_log[OF m] obtain j where j: "0 \<le> j" "j \<le> max k 0"
    "mlog = map (Pair Lightweight) [1..j]" "found mti \<longrightarrow> target_page mti = Some j \<and> 1 \<le> j"
    by (auto simp: no_target_def)
  have ml: "pages_of Lightweight mlog = [1..j]" "pages_of Rendered mlog = []"
    using j(3) by (simp_all add: pages_of_same pages_of_other)
  have lb: "int (length [1..j]) \<le> max 0 k" using j(1,2) by simp
  show ?thesis
  proof (cases "found mti")
    case True
    with m j ml lb show ?thesis
      by (simp add: find_product_ranking_def search_products_mobile_def mobile_missed_def)
  next
    case False
    obtain bp bti blog where b: "search_products_browser env kw k tid = Inr (bp, bti, blog)"
      by (cases "search_products_browser env kw k tid")
        (auto simp: search_products_browser_def split: if_splits option.splits)
    have "\<exists>j'. 0 \<le> j' \<and> j' \<le> max k 0 \<and> blog = map (Pair Rendered) [1..j']
            \<and> (found bti \<longrightarrow> target_page bti = Some j' \<and> 1 \<le> j')"
    proof (cases "has_selenium env \<and> chrome_start env = None")
      case True
      with b have "browser_loop env kw tid [1..k] [] no_target [] = (bp, bti, blog)"
        by (simp add: search_products_browser_def)
      from browser_loop_log[OF this] show ?thesis by (auto simp: no_target_def)
    next
      case False
      with b have "bti = no_target" "blog = []"
        by (auto simp: search_products_browser_def split: if_splits option.splits)
      then show ?thesis by (intro exI[of _ 0]) (simp add: no_target_def)
    qed
    then obtain j' where j': "0 \<le> j'" "j' \<le> max k 0" "blog = map (Pair Rendered) [1..j']"
      "found bti \<longrightarrow> target_page bti = Some j' \<and> 1 \<le> j'" by auto
    have bl: "pages_of Lightweight blog = []" "pages_of Rendered blog = [1..j']"
      using j'(3) by (simp_all add: pages_of_same pages_of_other)
    have lb': "int (length [1..j']) \<le> max 0 k" using j'(1,2) by simp
    from False m b j' ml bl lb lb' show ?thesis
      by (simp add: find_product_ranking_def search_products_mobile_def mobile_missed_def
          pages_of_append)
  qed
qed

theorem page_fetch_bound_witness:
  "find_product_ranking mobile_env ''Lenor'' lenor_id 3
     = Inr (\<lparr>position = Some 2, page_product = Some 3, page = Some 2,
             product = Some lenor_product, total_found = 3\<rparr>,
            [(Lightweight, 1), (Lightweight, 2)])
   \<and> pages_of (if mobile_missed mobile_env ''Lenor'' lenor_id 3 then Rendered else Lightweight)
        [(Lightweight, 1), (Lightweight, 2)] = [1..2]
   \<and> int (length (pages_of
         (if mobile_missed mobile_env ''Lenor'' lenor_id 3 then Rendered else Lightweight)
         [(Lightweight, 1), (Lightweight, 2)])) = 2"
proof -
  have e: "find_product_ranking mobile_env ''Lenor'' lenor_id 3
     = Inr (\<lparr>position = Some 2, page_product = Some 3, page = Some 2,
             product = Some lenor_product, total_found = 3\<rparr>,
            [(Lightweight, 1), (Lightweight, 2)])"
    by code_simp
  from page_fetch_bound[of mobile_env "''Lenor''" lenor_id 3] e
  show ?thesis by simp
qed

section \<open>A run accumulates its pages\<close>

lemma mobile_page_products:
  "mobile_page env kw tid i ps ti = Inr (ps1, ti1, stop) \<Longrightarrow>
   ps1 = ps @ all_records (mobile_records env kw) [i]"
  by (auto simp: mobile_page_def mobile_records_def all_records_def
      split: sum.splits prod.splits if_splits)

lemma mobile_page_raises:
  "mobile_page env kw tid i ps ti = Inl e \<Longrightarrow> mobile_records env kw i = None"
  by (auto simp: mobile_page_def mobile_records_def split: sum.splits prod.splits if_splits)

lemma browser_page_products:
  "browser_page env kw tid i ps ti = Inr (ps1, ti1, stop) \<Longrightarrow>
   ps1 = ps @ all_records (browser_records env kw) [i]"
  by (auto simp: browser_page_def browser_records_def all_records_def
      split: sum.splits prod.splits if_splits)

lemma browser_page_raises:
  "browser_page env kw tid i ps ti = Inl e \<Longrightarrow> browser_records env kw i = None"
  by (auto simp: browser_page_def browser_records_def split: sum.splits prod.splits if_splits)

lemma mobile_loop_products:
  "mobile_loop env kw tid pages ps ti log = (ps', ti', log') \<Longrightarrow>
   \<exists>n. log' = log @ map (Pair Lightweight) (take n pages)
     \<and> ps' = ps @ all_records (mobile_records env kw) (take n pages)"
proof (induction pages arbitrary: ps ti log)
  case Nil
  then show ?case by (simp add: all_records_def)
next
  case (Cons i pages)
  show ?case
  proof (cases "mobile_page env kw tid i ps ti")
    case (Inl e)
    with Cons.prems mobile_page_raises[OF Inl] show ?thesis
      by (intro exI[of _ 1]) (simp add: all_records_def)
  next
    case (Inr res)
    obtain ps1 ti1 stop where res: "res = (ps1, ti1, stop)" by (cases res)
    note pp = mobile_page_products[OF Inr[unfolded res]]
    show ?thesis
    proof (cases stop)
      case True
      with Cons.prems Inr res pp show ?thesis by (intro exI[of _ 1]) simp
    next
      case False
      with Cons.prems Inr res
      have "mobile_loop env kw tid pages ps1 ti1 (log @ [(Lightweight, i)]) = (ps', ti', log')"
        by simp
      from Cons.IH[OF this] obtain n where
        "log' = (log @ [(Lightweight, i)]) @ map (Pair Lightweight) (take n pages)"
        "ps' = ps1 @ all_records (mobile_records env kw) (take n pages)" by auto
      with pp show ?thesis
        by (intro exI[of _ "Suc n"]) (simp add: all_records_Cons all_records_def[of _ "[]"])
    qed
  qed
qed

lemma browser_loop_products:
  "browser_loop env kw tid pages ps ti log = (ps', ti', log') \<Longrightarrow>
   \<exists>n. log' = log @ map (Pair Rendered) (take n pages)
     \<and> ps' = ps @ all_records (browser_records env kw) (take n pages)"
proof (induction pages arbitrary: ps ti log)
  case Nil
  then show ?case by (simp add: all_records_def)
next
  case (Cons i pages)
  show ?case
  proof (cases "browser_page env kw tid i ps ti")
    case (Inl e)
    with Cons.prems browser_page_raises[OF Inl] show ?thesis
      by (intro exI[of _ 1]) (simp add: all_records_def split: error.splits)
  next
    case (Inr res)
    obtain ps1 ti1 stop where res: "res = (ps1, ti1, stop)" by (cases res)
    note pp = browser_page_products[OF Inr[unfolded res]]
    show ?thesis
    proof (cases stop)
      case True
      with Cons.prems Inr res pp show ?thesis by (intro exI[of _ 1]) simp
    next
      case False
      with Cons.prems Inr res
      have "browser_loop env kw tid pages ps1 ti1 (log @ [(Rendered, i)]) = (ps', ti', log')"
        by simp
      from Cons.IH[OF this] obtain n where
        "log' = (log @ [(Rendered, i)]) @ map (Pair Rendered) (take n pages)"
        "ps' = ps1 @ all_records (browser_records env kw) (take n pages)" by auto
      with pp show ?thesis
        by (intro exI[of _ "Suc n"]) (simp add: all_records_Cons all_records_def[of _ "[]"])
    qed
  qed
qed

lemma page_records_distinct:
  "distinct (map prod_id (all_records (mobile_records env kw) [i]))"
  "distinct (map prod_id (all_records (browser_records env kw) [i]))"
  by (auto simp: all_records_def mobile_records_def browser_records_def
      extract_products_from_html_def extract_keep_first keep_first_distinct
      split: option.splits sum.splits prod.splits if_splits)

text \<open>
  C3 (as amended). Within a single search run the accumulated record list is the
  concatenation, in page order, of the extractions of the pages the run requested, and the
  extraction of each single page holds no two records with the same identifier.
  Uniqueness is per page: nothing removes an identifier that a later page repeats.
\<close>

theorem run_is_concatenation_of_pages:
  "(\<exists>products ti log. search_products_mobile env kw k tid = Inr (products, ti, log)
       \<and> products = all_records (mobile_records env kw) (pages_of Lightweight log))
   \<and> (\<exists>products ti log. search_products_browser env kw k tid = Inr (products, ti, log)
       \<and> products = all_records (browser_records env kw) (pages_of Rendered log))
   \<and> (\<forall>i. distinct (map prod_id (all_records (mobile_records env kw) [i]))
          \<and> distinct (map prod_id (all_records (browser_records env kw) [i])))"
proof (intro conjI allI)
  obtain mp mti mlog where m: "mobile_loop env kw tid [1..k] [] no_target [] = (mp, mti, mlog)"
    by (cases "mobile_loop env kw tid [1..k] [] no_target []")
  from mobile_loop_products[OF m] m
  show "\<exists>products ti log. search_products_mobile env kw k tid = Inr (products, ti, log)
       \<and> products = all_records (mobile_records env kw) (pages_of Lightweight log)"
    by (auto simp: search_products_mobile_def pages_of_same)
next
  obtain bp bti blog where b: "browser_loop env kw tid [1..k] [] no_target [] = (bp, bti, blog)"
    by (cases "browser_loop env kw tid [1..k] [] no_target []")
  from browser_loop_products[OF b] b
  show "\<exists>products ti log. search_products_browser env kw k tid = Inr (products, ti, log)
       \<and> products = all_records (browser_records env kw) (pages_of Rendered log)"
    by (auto simp: search_products_browser_def pages_of_same pages_of_Nil all_records_def
        split: option.splits)
qed (rule page_records_distinct)+

text \<open>
  The claim as written asks for uniqueness across the pages of a run. Here the second
  page lists again a product of the first page, and the accumulated list holds it twice.
\<close>

theorem duplicate_across_pages_counterexample:
  "search_products_mobile mobile_env ''Lenor'' 3 lenor_id
     = Inr ([robijn_product, robijn_product, lenor_product],
            \<lparr>found = True, target_page = Some 2, position_on_page = Some 2,
             target_page_product = Some 3\<rparr>,
            [(Lightweight, 1), (Lightweight, 2)])
   \<and> \<not> distinct (map prod_id
         (products_of (search_products_mobile mobile_env ''Lenor'' 3 lenor_id)))"
  by code_simp

section \<open>The result when nothing matched\<close>

lemma search_products_mobile_returns:
  "\<exists>products ti log. search_products_mobile env kw k tid = Inr (products, ti, log)"
  by (cases "mobile_loop env kw tid [1..k] [] no_target []")
    (simp add: search_products_mobile_def)

lemma search_products_browser_returns:
  "\<exists>products ti log. search_products_browser env kw k tid = Inr (products, ti, log)"
  by (cases "browser_loop env kw tid [1..k] [] no_target []")
    (simp add: search_products_browser_def split: option.splits)

text \<open>
  C5 (as amended). When neither strategy matches the target, the returned result has
  position, absolute position, page and product all null, and the total is the record
  count of the rendered strategy when that strategy yielded at least one record, and the
  record count of the lightweight strategy otherwise.
\<close>

theorem not_found_result:
  assumes "mobile_missed env kw tid k" and "browser_missed env kw tid k"
  shows "\<exists>log. find_product_ranking env kw tid k =
           Inr (\<lparr>position = None, page_product = None, page = None, product = None,
                 total_found =
                   int (length (if products_of (search_products_browser env kw k tid) \<noteq> []
                                then products_of (search_products_browser env kw k tid)
                                else products_of (search_products_mobile env kw k tid)))\<rparr>,
                log)"
proof -
  obtain mp mti mlog where m: "search_products_mobile env kw k tid = Inr (mp, mti, mlog)"
    using search_products_mobile_returns by blast
  obtain bp bti blog where b: "search_products_browser env kw k tid = Inr (bp, bti, blog)"
    using search_products_browser_returns by blast
  from assms m b have "\<not> found mti" "\<not> found bti"
    by (simp_all add: mobile_missed_def browser_missed_def)
  with m b show ?thesis
    by (simp add: find_product_ranking_def products_of_def)
qed

theorem not_found_result_witness:
  "mobile_missed browser_env ''Lenor'' ''0000000000'' 3
   \<and> browser_missed browser_env ''Lenor'' ''0000000000'' 3
   \<and> products_of (search_products_browser browser_env ''Lenor'' 3 ''0000000000'')
       = [robijn_product, robijn_product, lenor_product]
   \<and> (\<exists>log. find_product_ranking browser_env ''Lenor'' ''0000000000'' 3 =
           Inr (\<lparr>position = None, page_product = None, page = None, product = None,
                 total_found = 3\<rparr>, log))"
proof -
  have m: "mobile_missed browser_env ''Lenor'' ''0000000000'' 3"
    by code_simp
  have b: "browser_missed browser_env ''Lenor'' ''0000000000'' 3"
    by code_simp
  have p: "products_of (search_products_browser browser_env ''Lenor'' 3 ''0000000000'')
       = [robijn_product, robijn_product, lenor_product]"
    by code_simp
  from not_found_result[OF m b] m b p show ?thesis by simp
qed

text \<open>
  The claim as written gives the total of the lightweight strategy in every run without
  a match. Here the lightweight fetch is refused on page 1 and accumulates nothing, the
  rendered strategy scans three records without a match, and the total is 3.
\<close>

theorem total_of_first_strategy_counterexample:
  "mobile_missed browser_env ''Lenor'' ''0000000000'' 3
   \<and> browser_missed browser_env ''Lenor'' ''0000000000'' 3
   \<and> find_product_ranking browser_env ''Lenor'' ''0000000000'' 3 =
        Inr (\<lparr>position = None, page_product = None, page = None, product = None,
              total_found = 3\<rparr>,
             [(Lightweight, 1), (Rendered, 1), (Rendered, 2), (Rendered, 3)])
   \<and> int (length (products_of (search_products_mobile browser_env ''Lenor'' 3 ''0000000000''))) = 0"
  by code_simp

section \<open>Scraping failures stay inside the strategies\<close>

lemma records_before_all:
  "records_before recs j = int (length (all_records recs [1..j - 1]))"
  by (simp add: records_before_def length_all_records)

lemma mobile_failure:
  assumes "list_all (scanned_without_match (mobile_records env kw) tid) [1..j - 1]"
    and "mobile_records env kw j = None" and "1 \<le> j" and "j \<le> k"
  shows "mobile_loop env kw tid [1..k] [] no_target [] =
           (all_records (mobile_records env kw) [1..j - 1], no_target,
            map (Pair Lightweight) [1..j])"
proof -
  have split: "[1..k] = [1..j - 1] @ j # [j + 1..k]" using assms(3,4) by (rule upto_split3)
  have j1: "[1..j] = [1..j - 1] @ [j]" using assms(3) by (rule upto_rec2)
  have nf: "\<not> found no_target" by (simp add: no_target_def)
  show ?thesis
    unfolding split mobile_loop_scan[OF assms(1) nf] mobile_loop_fail[OF assms(2)]
    by (simp add: j1)
qed

lemma browser_failure:
  assumes "list_all (scanned_without_match (browser_records env kw) tid) [1..j - 1]"
    and "list_all (nonempty_page (browser_records env kw)) [1..j - 1]"
    and "browser_records env kw j = None" and "1 \<le> j" and "j \<le> k"
  shows "browser_loop env kw tid [1..k] [] no_target [] =
           (all_records (browser_records env kw) [1..j - 1], no_target,
            map (Pair Rendered) [1..j])"
proof -
  have split: "[1..k] = [1..j - 1] @ j # [j + 1..k]" using assms(4,5) by (rule upto_split3)
  have j1: "[1..j] = [1..j - 1] @ [j]" using assms(4) by (rule upto_rec2)
  have nf: "\<not> found no_target" by (simp add: no_target_def)
  show ?thesis
    unfolding split browser_loop_scan[OF assms(1,2) nf] browser_loop_fail[OF assms(3)]
    by (simp add: j1)
qed

lemma missed_not_found:
  assumes "mobile_missed env kw tid k" and "browser_missed env kw tid k"
  shows "\<exists>r log. find_product_ranking env kw tid k = Inr (r, log)
           \<and> position r = None \<and> page_product r = None \<and> page r = None \<and> product r = None"
proof -
  obtain mp mti mlog where m: "search_products_mobile env kw k tid = Inr (mp, mti, mlog)"
    using search_products_mobile_returns by blast
  obtain bp bti blog where b: "search_products_browser env kw k tid = Inr (bp, bti, blog)"
    using search_products_browser_returns by blast
  from assms m b have "\<not> found mti" "\<not> found bti"
    by (simp_all add: mobile_missed_def browser_missed_def)
  with m b show ?thesis
    by (simp add: find_product_ranking_def)
qed

text \<open>
  C6. The locator always returns a result, and so does each strategy: an exception
  raised while a page is fetched or parsed ends the page loop of that strategy with what
  it had accumulated, and nothing more is requested. A strategy whose fetch of page
  \<open>j\<close> fails before any match returns the records of the pages before \<open>j\<close> and
  no match; when the other strategy does not match either, the locator returns the
  result without a match. A rendered strategy that is not installed or cannot start
  returns nothing.
\<close>


theorem scraping_failures_absorbed:
  "(\<exists>r log. find_product_ranking env kw tid k = Inr (r, log))
   \<and> (\<exists>products ti log. search_products_mobile env kw k tid = Inr (products, ti, log))
   \<and> (\<exists>products ti log. search_products_browser env kw k tid = Inr (products, ti, log))
   \<and> (\<forall>e. mobile_page env kw tid i ps ti = Inl e \<longrightarrow>
         mobile_loop env kw tid (i # rest) ps ti lg = (ps, ti, lg @ [(Lightweight, i)]))
   \<and> (\<forall>e. browser_page env kw tid i ps ti = Inl e \<longrightarrow>
         browser_loop env kw tid (i # rest) ps ti lg = (ps, ti, lg @ [(Rendered, i)]))
   \<and> (1 \<le> j \<and> j \<le> k
        \<and> list_all (scanned_without_match (mobile_records env kw) tid) [1..j - 1]
        \<and> mobile_records env kw j = None \<longrightarrow>
       search_products_mobile env kw k tid =
         Inr (all_records (mobile_records env kw) [1..j - 1], no_target,
              map (Pair Lightweight) [1..j])
       \<and> (browser_missed env kw tid k \<longrightarrow>
            (\<exists>r log. find_product_ranking env kw tid k = Inr (r, log)
               \<and> position r = None \<and> page_product r = None \<and> page r = None
               \<and> product r = None)))
   \<and> (1 \<le> j \<and> j \<le> k \<and> has_selenium env \<and> chrome_start env = None
        \<and> list_all (scanned_without_match (browser_records env kw) tid) [1..j - 1]
        \<and> list_all (nonempty_page (browser_records env kw)) [1..j - 1]
        \<and> browser_records env kw j = None \<longrightarrow>
       search_products_browser env kw k tid =
         Inr (all_records (browser_records env kw) [1..j - 1], no_target,
              map (Pair Rendered) [1..j])
       \<and> (mobile_missed env kw tid k \<longrightarrow>
            (\<exists>r log. find_product_ranking env kw tid k = Inr (r, log)
               \<and> position r = None \<and> page_product r = None \<and> page r = None
               \<and> product r = None)))
   \<and> (\<not> has_selenium env \<or> chrome_start env \<noteq> None \<longrightarrow>
        search_products_browser env kw k tid = Inr ([], no_target, []))"
proof (intro conjI allI impI)
  obtain mp mti mlog where m: "search_products_mobile env kw k tid = Inr (mp, mti, mlog)"
    using search_products_mobile_returns by blast
  obtain bp bti blog where b: "search_products_browser env kw k tid = Inr (bp, bti, blog)"
    using search_products_browser_returns by blast
  from m b show "\<exists>r log. find_product_ranking env kw tid k = Inr (r, log)"
    by (simp add: find_product_ranking_def)
next
  show "\<exists>products ti log. search_products_mobile env kw k tid = Inr (products, ti, log)"
    by (rule search_products_mobile_returns)
next
  show "\<exists>products ti log. search_products_browser env kw k tid = Inr (products, ti, log)"
    by (rule search_products_browser_returns)
next
  fix e assume "mobile_page env kw tid i ps ti = Inl e"
  then show "mobile_loop env kw tid (i # rest) ps ti lg = (ps, ti, lg @ [(Lightweight, i)])"
    by simp
next
  fix e assume "browser_page env kw tid i ps ti = Inl e"
  then show "browser_loop env kw tid (i # rest) ps ti lg = (ps, ti, lg @ [(Rendered, i)])"
    by (simp split: error.splits)
next
  assume h: "1 \<le> j \<and> j \<le> k
        \<and> list_all (scanned_without_match (mobile_records env kw) tid) [1..j - 1]
        \<and> mobile_records env kw j = None"
  then show mf: "search_products_mobile env kw k tid =
         Inr (all_records (mobile_records env kw) [1..j - 1], no_target,
              map (Pair Lightweight) [1..j])"
    by (simp add: search_products_mobile_def mobile_failure)
  assume bm: "browser_missed env kw tid k"
  from mf have "mobile_missed env kw tid k"
    by (simp add: mobile_missed_def no_target_def)
  from this bm show "\<exists>r log. find_product_ranking env kw tid k = Inr (r, log)
               \<and> position r = None \<and> page_product r = None \<and> page r = None
               \<and> product r = None"
    by (rule missed_not_found)
next
  assume h: "1 \<le> j \<and> j \<le> k \<and> has_selenium env \<and> chrome_start env = None
        \<and> list_all (scanned_without_match (browser_records env kw) tid) [1..j - 1]
        \<and> list_all (nonempty_page (browser_records env kw)) [1..j - 1]
        \<and> browser_records env kw j = None"
  then show bf: "search_products_browser env kw k tid =
         Inr (all_records (browser_records env kw) [1..j - 1], no_target,
              map (Pair Rendered) [1..j])"
    by (simp add: search_products_browser_def browser_failure)
  assume mm: "mobile_missed env kw tid k"
  from bf have "browser_missed env kw tid k"
    by (simp add: browser_missed_def no_target_def)
  from mm this show "\<exists>r log. find_product_ranking env kw tid k = Inr (r, log)
               \<and> position r = None \<and> page_product r = None \<and> page r = None
               \<and> product r = None"
    by (rule missed_not_found)
next
  assume "\<not> has_selenium env \<or> chrome_start env \<noteq> None"
  then show "search_products_browser env kw k tid = Inr ([], no_target, [])"
    by (auto simp: search_products_browser_def split: option.splits)
qed

theorem scraping_failures_absorbed_witness:
  "mobile_page offline_env ''Lenor'' lenor_id 1 [] no_target = Inl OtherException
   \<and> mobile_loop offline_env ''Lenor'' lenor_id [1, 2, 3] [] no_target []
       = ([], no_target, [(Lightweight, 1)])
   \<and> search_products_mobile offline_env ''Lenor'' 3 lenor_id = Inr ([], no_target, [(Lightweight, 1)])
   \<and> search_products_browser offline_env ''Lenor'' 3 lenor_id = Inr ([], no_target, [])
   \<and> find_product_ranking offline_env ''Lenor'' lenor_id 3 =
          Inr (\<lparr>position = None, page_product = None, page = None, product = None,
                total_found = 0\<rparr>, [(Lightweight, 1)])
   \<and> browser_page flaky_env ''Lenor'' lenor_id 2 [robijn_product] no_target = Inl WebDriverException
   \<and> browser_loop flaky_env ''Lenor'' lenor_id [2, 3] [robijn_product] no_target [(Rendered, 1)]
       = ([robijn_product], no_target, [(Rendered, 1), (Rendered, 2)])
   \<and> search_products_browser flaky_env ''Lenor'' 3 lenor_id
       = Inr ([robijn_product], no_target, [(Rendered, 1), (Rendered, 2)])
   \<and> find_product_ranking flaky_env ''Lenor'' lenor_id 3 =
          Inr (\<lparr>position = None, page_product = None, page = None, product = None,
                total_found = 1\<rparr>, [(Lightweight, 1), (Rendered, 1), (Rendered, 2)])"
proof -
  have a: "mobile_page offline_env ''Lenor'' lenor_id 1 [] no_target = Inl OtherException"
    by code_simp
  have b: "1 \<le> (1::int) \<and> (1::int) \<le> 3
        \<and> list_all (scanned_without_match (mobile_records offline_env ''Lenor'') lenor_id) [1..1 - 1]
        \<and> mobile_records offline_env ''Lenor'' 1 = None"
    by code_simp
  have c: "\<not> has_selenium offline_env \<or> chrome_start offline_env \<noteq> None"
    by code_simp
  have d: "all_records (mobile_records offline_env ''Lenor'') [1..1 - 1] = []"
    by code_simp
  have e: "find_product_ranking offline_env ''Lenor'' lenor_id 3 =
          Inr (\<lparr>position = None, page_product = None, page = None, product = None,
                total_found = 0\<rparr>, [(Lightweight, 1)])"
    by code_simp
  have f: "browser_page flaky_env ''Lenor'' lenor_id 2 [robijn_product] no_target
             = Inl WebDriverException"
    by code_simp
  have g: "1 \<le> (2::int) \<and> (2::int) \<le> 3 \<and> has_selenium flaky_env \<and> chrome_start flaky_env = None
        \<and> list_all (scanned_without_match (browser_records flaky_env ''Lenor'') lenor_id) [1..2 - 1]
        \<and> list_all (nonempty_page (browser_records flaky_env ''Lenor'')) [1..2 - 1]
        \<and> browser_records flaky_env ''Lenor'' 2 = None"
    by code_simp
  have h: "all_records (browser_records flaky_env ''Lenor'') [1..2 - 1] = [robijn_product]"
    by code_simp
  have i: "find_product_ranking flaky_env ''Lenor'' lenor_id 3 =
          Inr (\<lparr>position = None, page_product = None, page = None, product = None,
                total_found = 1\<rparr>, [(Lightweight, 1), (Rendered, 1), (Rendered, 2)])"
    by code_simp
  have u: "[1..(1::int)] = [1]" "[1..(2::int)] = [1, 2]"
    by code_simp+
  from scraping_failures_absorbed[of offline_env "''Lenor''" lenor_id 3 1 "[]" no_target
      "[2, 3]" "[]" 1] a b c d e
    scraping_failures_absorbed[of flaky_env "''Lenor''" lenor_id 3 2 "[robijn_product]" no_target
      "[3]" "[(Rendered, 1)]" 2] f g h i u
  show ?thesis by simp
qed

section \<open>Validation of the product address\<close>

lemma slash_not_digit: "\<not> is_digit CHR ''/''"
  by (simp add: is_digit_def)

lemma search_id_sound:
  "search_id u = Some d \<Longrightarrow>
   \<exists>pre post. u = pre @ ''/'' @ d @ ''/'' @ post \<and> 10 \<le> length d \<and> list_all is_digit d"
proof (induction u)
  case Nil
  then show ?case by simp
next
  case (Cons c cs)
  show ?case
  proof (cases "c = CHR ''/'' \<and> 10 \<le> length (takeWhile is_digit cs)
         \<and> startswith ''/'' (dropWhile is_digit cs)")
    case True
    with Cons.prems have d: "d = takeWhile is_digit cs" by simp
    from True obtain post where post: "dropWhile is_digit cs = CHR ''/'' # post"
      by (cases "dropWhile is_digit cs") (auto simp: startswith_def)
    have "cs = takeWhile is_digit cs @ dropWhile is_digit cs" by simp
    with d post have "c # cs = [] @ ''/'' @ d @ ''/'' @ post" using True by simp
    moreover have "list_all is_digit d" unfolding d
      by (simp add: list_all_iff) (meson set_takeWhileD)
    ultimately show ?thesis using True d by blast
  next
    case False
    with Cons.prems have "search_id cs = Some d" by auto
    from Cons.IH[OF this] obtain pre post where
      "cs = pre @ ''/'' @ d @ ''/'' @ post" "10 \<le> length d" "list_all is_digit d" by blast
    then have "c # cs = (c # pre) @ ''/'' @ d @ ''/'' @ post" by simp
    with \<open>10 \<le> length d\<close> \<open>list_all is_digit d\<close> show ?thesis by blast
  qed
qed

lemma search_id_complete:
  "10 \<le> length ds \<Longrightarrow> list_all is_digit ds \<Longrightarrow>
   search_id (pre @ ''/'' @ ds @ ''/'' @ post) \<noteq> None"
proof (induction pre)
  case Nil
  have t: "takeWhile is_digit (ds @ CHR ''/'' # post) = ds"
    using Nil(2) by (simp add: takeWhile_append2 list_all_iff slash_not_digit)
  have d: "dropWhile is_digit (ds @ CHR ''/'' # post) = CHR ''/'' # post"
    using Nil(2) by (simp add: dropWhile_append2 list_all_iff slash_not_digit)
  from Nil(1) t d show ?case by (simp add: startswith_def)
next
  case (Cons c pre)
  then show ?case by simp
qed

lemma has_id_segment_iff: "has_id_segment u \<longleftrightarrow> search_id u \<noteq> None"
proof
  assume "has_id_segment u"
  then show "search_id u \<noteq> None"
    unfolding has_id_segment_def using search_id_complete by blast
next
  assume "search_id u \<noteq> None"
  then obtain d where "search_id u = Some d" by auto
  from search_id_sound[OF this] show "has_id_segment u"
    unfolding has_id_segment_def by blast
qed

text \<open>
  C7 (as amended). The validation is on the product address, in the entry point that
  derives the identifier from it: for an address with no run of ten or more digits
  between path delimiters, \<open>get_product_id\<close> raises \<open>ValueError\<close>, and
  \<open>add_tracked_product\<close> fails with it before any page is requested and before
  anything is stored.
\<close>

theorem malformed_url_rejected_before_fetch:
  assumes "\<not> has_id_segment u"
  shows "get_product_id u = Inl ValueError
         \<and> add_tracked_product env d kw u stop_after_days = (Inl ValueError, d, [])"
  using assms
  by (simp add: has_id_segment_iff get_product_id_def add_tracked_product_def)

theorem malformed_url_rejected_before_fetch_witness:
  "\<not> has_id_segment ''https://www.bol.com/nl/nl/p/lenor/123/''
   \<and> add_tracked_product mobile_env empty_db ''Lenor'' ''https://www.bol.com/nl/nl/p/lenor/123/'' None
       = (Inl ValueError, empty_db, [])"
proof -
  have "search_id ''https://www.bol.com/nl/nl/p/lenor/123/'' = None"
    by code_simp
  then have m: "\<not> has_id_segment ''https://www.bol.com/nl/nl/p/lenor/123/''"
    by (simp add: has_id_segment_iff)
  from malformed_url_rejected_before_fetch[OF m, of mobile_env empty_db "''Lenor''" None] m
  show ?thesis by simp
qed

text \<open>
  The claim as written puts the validation in the locator. The locator takes the
  identifier as it is given: with an identifier that holds no digits at all it requests
  page 1 and returns a result.
\<close>

theorem locate_does_not_validate_counterexample:
  "\<not> has_id_segment ''abc''
   \<and> find_product_ranking mobile_env ''Lenor'' ''abc'' 1 =
        Inr (\<lparr>position = None, page_product = None, page = None, product = None,
              total_found = 1\<rparr>, [(Lightweight, 1)])"
proof -
  have "search_id ''abc'' = None"
    by code_simp
  then have m: "\<not> has_id_segment ''abc''"
    by (simp add: has_id_segment_iff)
  have "find_product_ranking mobile_env ''Lenor'' ''abc'' 1 =
        Inr (\<lparr>position = None, page_product = None, page = None, product = None,
              total_found = 1\<rparr>, [(Lightweight, 1)])"
    by code_simp
  with m show ?thesis by simp
qed

section \<open>The next run time\<close>

text \<open>
  What holds for every current time: the computed value has the fields of 09:00:00, of
  today before 09:00 and of tomorrow from 09:00 on, it compares as later than the
  current time, and it carries the offset of the current time. It is 09:00 on the clocks
  of the zone whenever the offset in force at that instant is still the one of the
  current time.
\<close>

lemma next_run_fields:
  "(hour now < 9 \<longrightarrow>
      get_next_run_time now = now\<lparr>hour := 9, minute := 0, second := 0, microsecond := 0\<rparr>)
   \<and> (9 \<le> hour now \<longrightarrow>
      get_next_run_time now =
        now\<lparr>day := day now + 1, hour := 9, minute := 0, second := 0, microsecond := 0\<rparr>)
   \<and> dt_less now (get_next_run_time now)
   \<and> utcoffset (get_next_run_time now) = utcoffset now"
  by (auto simp: get_next_run_time_def dt_ge_def dt_less_def at_nine_def plus_one_day_def)

lemma nine_fields:
  "hour (get_next_run_time now) = 9 \<and> minute (get_next_run_time now) = 0
   \<and> second (get_next_run_time now) = 0 \<and> microsecond (get_next_run_time now) = 0"
  by (auto simp: get_next_run_time_def at_nine_def plus_one_day_def)

lemma nine_div: "((x::int) * 86400 + 32400) div 86400 = x"
  by simp

lemma nine_mod_day: "((x::int) * 86400 + 32400) mod 86400 = 32400"
  by simp

lemma nine_mod_hour: "((x::int) * 86400 + 32400) mod 3600 = 0"
proof -
  have "x * 86400 + 32400 = 3600 * (x * 24 + 9)" by simp
  then show ?thesis by (simp only: mod_mult_self1_is_0)
qed

lemma nine_mod_minute: "((x::int) * 86400 + 32400) mod 60 = 0"
proof -
  have "x * 86400 + 32400 = 60 * (x * 1440 + 540)" by simp
  then show ?thesis by (simp only: mod_mult_self1_is_0)
qed

lemma now_in_nine:
  "tz u = off \<Longrightarrow> u + off = x * 86400 + 32400 \<Longrightarrow>
   now_in tz u 0 = \<lparr>day = x, hour = 9, minute = 0, second = 0, microsecond = 0, utcoffset = off\<rparr>"
  by (simp add: now_in_def nine_div nine_mod_day nine_mod_hour nine_mod_minute)

lemma next_run_same_offset:
  assumes "tz (utc_seconds (get_next_run_time now)) = utcoffset now"
  shows "wall_clock tz (get_next_run_time now) = get_next_run_time now"
proof -
  obtain n where n: "n = get_next_run_time now" by simp
  have f: "hour n = 9" "minute n = 0" "second n = 0" "microsecond n = 0"
    using nine_fields[of now] n by simp_all
  have o: "utcoffset n = utcoffset now" using next_run_fields[of now] n by simp
  have t: "tz (utc_seconds n) = utcoffset n" using assms n o by simp
  have u: "utc_seconds n + utcoffset n = day n * 86400 + 32400"
    using f by (simp add: utc_seconds_def)
  have "now_in tz (utc_seconds n) 0 =
          \<lparr>day = day n, hour = 9, minute = 0, second = 0, microsecond = 0,
           utcoffset = utcoffset n\<rparr>"
    using t u by (rule now_in_nine)
  also have "\<dots> = n" using f by simp
  finally show ?thesis using n f by (simp add: wall_clock_def)
qed

text \<open>
  C8. The code does not give the 09:00 of the zone when the clocks change in between.
  At 10:00 on 2024-03-30 in Amsterdam (09:00 UTC) the computed next run has the fields
  of 2024-03-31 09:00:00 and the offset of one hour that was in force on the 30th; the
  instant it denotes is 10:00 on the clocks of Amsterdam, which show 09:00 one hour
  earlier, at 07:00 UTC.
\<close>

theorem next_run_after_clock_change:
  "now_in amsterdam_2024 (738975 * 86400 + 9 * 3600) 0
     = \<lparr>day = 738975, hour = 10, minute = 0, second = 0, microsecond = 0, utcoffset = 3600\<rparr>
   \<and> get_next_run_time (now_in amsterdam_2024 (738975 * 86400 + 9 * 3600) 0)
     = \<lparr>day = 738976, hour = 9, minute = 0, second = 0, microsecond = 0, utcoffset = 3600\<rparr>
   \<and> wall_clock amsterdam_2024
        (get_next_run_time (now_in amsterdam_2024 (738975 * 86400 + 9 * 3600) 0))
     = \<lparr>day = 738976, hour = 10, minute = 0, second = 0, microsecond = 0, utcoffset = 7200\<rparr>
   \<and> now_in amsterdam_2024 (738976 * 86400 + 7 * 3600) 0
     = \<lparr>day = 738976, hour = 9, minute = 0, second = 0, microsecond = 0, utcoffset = 7200\<rparr>"
  by (simp add: now_in_def amsterdam_2024_def get_next_run_time_def dt_ge_def dt_less_def
      at_nine_def plus_one_day_def wall_clock_def utc_seconds_def)

section \<open>Stopping the scheduler during its sleep\<close>

text \<open>
  What holds: the step after the sleep is the test of the flag, and the call of the
  batch routine is reached only through that test with the flag set; so after a stop
  that finds no thread at the call, no batch run follows as long as the scheduler is
  not started again.
\<close>

lemma run_append: "run (xs @ ys) s = run ys (run xs s)"
  by (induction xs s rule: run.induct) auto

lemma loop_step_quiet: "pt \<noteq> Run_checks \<Longrightarrow> loop_step r False pt \<noteq> Run_checks"
  by (auto simp: loop_step_def split: point.splits sum.splits)

lemma stopped_stays:
  "\<not> running s \<Longrightarrow> Run_checks \<notin> set (threads s) \<Longrightarrow> Start \<notin> set as \<Longrightarrow>
   batch_runs (run as s) = batch_runs s"
proof (induction as s rule: run.induct)
  case (1 s)
  then show ?case by simp
next
  case (2 as s)
  then show ?case by simp
next
  case (3 as s)
  then show ?case by (simp add: stop_scheduler_def)
next
  case (4 i r as s)
  show ?case
  proof (cases "i < length (threads s)")
    case False
    with 4 show ?thesis by (simp add: thread_step_def)
  next
    case True
    with "4.prems"(2) have ni: "threads s ! i \<noteq> Run_checks" by (metis nth_mem)
    have "set ((threads s)[i := loop_step r (running s) (threads s ! i)])
            \<subseteq> insert (loop_step r (running s) (threads s ! i)) (set (threads s))"
      by (rule set_update_subset_insert)
    moreover have "loop_step r (running s) (threads s ! i) \<noteq> Run_checks"
      using "4.prems"(1) ni by (simp add: loop_step_quiet)
    ultimately have q: "Run_checks \<notin> set (threads (thread_step i r s))"
      using "4.prems"(2) True by (auto simp: thread_step_def)
    have r: "\<not> running (thread_step i r s)" using "4.prems"(1) by (simp add: thread_step_def)
    have b: "batch_runs (thread_step i r s) = batch_runs s"
      using ni by (simp add: thread_step_def)
    from "4.IH"[OF r q] "4.prems"(3) b show ?thesis by simp
  qed
qed

lemma stop_without_restart:
  assumes "Run_checks \<notin> set (threads (run pre s0))" and "Start \<notin> set post"
  shows "batch_runs (run (pre @ Stop # post) s0) = batch_runs (run pre s0)"
proof -
  have "batch_runs (run post (stop_scheduler (run pre s0))) = batch_runs (stop_scheduler (run pre s0))"
    by (rule stopped_stays) (use assms in \<open>auto simp: stop_scheduler_def\<close>)
  then show ?thesis by (simp add: run_append stop_scheduler_def)
qed

lemma batch_only_after_recheck:
  "(loop_step r flag pt = Run_checks \<longrightarrow> pt = At_recheck \<and> flag)
   \<and> loop_step r flag Sleeping = At_recheck"
  by (auto simp: loop_step_def split: point.splits sum.splits if_splits)

text \<open>
  C9. The code lets a stopped loop run the batch when the scheduler is started again
  during the sleep. The loop thread sleeps until the next run; \<open>stop_scheduler\<close>
  clears the flag and returns, its wait of five seconds over; \<open>start_scheduler\<close>
  sets the flag and starts a second thread; the first thread wakes, finds the flag set
  at its test, and calls the batch routine. Without the second start the same thread
  leaves the loop.
\<close>

theorem restart_lets_stopped_loop_run:
  "threads (run [Start, Step 0 (Inr 0), Step 0 (Inr 82800)] initial_scheduler) = [Sleeping]
   \<and> run [Start, Step 0 (Inr 0), Step 0 (Inr 82800), Stop] initial_scheduler
       = \<lparr>running = False, threads = [Sleeping], batch_runs = []\<rparr>
   \<and> run [Start, Step 0 (Inr 0), Step 0 (Inr 82800), Stop, Start,
           Step 0 (Inr 0), Step 0 (Inr 0), Step 0 (Inr 0)] initial_scheduler
       = \<lparr>running = True, threads = [At_while, At_while], batch_runs = [0]\<rparr>
   \<and> run [Start, Step 0 (Inr 0), Step 0 (Inr 82800), Stop,
           Step 0 (Inr 0), Step 0 (Inr 0), Step 0 (Inr 0)] initial_scheduler
       = \<lparr>running = False, threads = [Exited], batch_runs = []\<rparr>"
  by (simp add: initial_scheduler_def start_scheduler_def stop_scheduler_def thread_step_def
      loop_step_def)

section \<open>The name stored by a scheduled check\<close>

text \<open>
  C10 (as amended). When the located product carries the sentinel name, the name in the
  appended history record is the stored name of the tracked entry when that is not empty
  and not the text \<open>None\<close>, and otherwise the name derived from the tracked address;
  it is not taken from the located product.
\<close>

theorem history_name_when_sentinel:
  assumes "find_product_ranking env (t_keyword row) (t_product_id row) 50 = Inr (r, log)"
    and "product r = Some p" and "prod_name p = ''Unknown Product''"
  shows "product_tracking (fst (snd (scheduled_check env d row))) =
           product_tracking d @
             [\<lparr>h_keyword = t_keyword row, h_product_id = t_product_id row,
               h_product_name =
                 (if truthy (t_product_name row) \<and> t_product_name row \<noteq> Some ''None''
                  then the (t_product_name row)
                  else extract_name_from_url (t_product_url row)),
               h_position = position r, h_page_product = page_product r,
               h_date = now_str env\<rparr>]"
  using assms
  by (simp add: scheduled_check_def name_to_store_def located_name_def stored_or_url_name_def
      save_to_db_def update_product_name_def)

theorem history_name_when_sentinel_witness:
  "find_product_ranking mobile_env (t_keyword unnamed_row) (t_product_id unnamed_row) 50
     = Inr (\<lparr>position = Some 2, page_product = Some 3, page = Some 2,
             product = Some lenor_product, total_found = 3\<rparr>,
            [(Lightweight, 1), (Lightweight, 2)])
   \<and> prod_name lenor_product = ''Unknown Product''
   \<and> product_tracking (fst (snd (scheduled_check mobile_env empty_db unnamed_row))) =
        [\<lparr>h_keyword = ''Lenor'', h_product_id = lenor_id, h_product_name = ''Lenor Geurbooster'',
          h_position = Some 2, h_page_product = Some 3, h_date = ''2025-01-01 09:00:00''\<rparr>]"
proof -
  have f: "find_product_ranking mobile_env (t_keyword unnamed_row) (t_product_id unnamed_row) 50
     = Inr (\<lparr>position = Some 2, page_product = Some 3, page = Some 2,
             product = Some lenor_product, total_found = 3\<rparr>,
            [(Lightweight, 1), (Lightweight, 2)])"
    by code_simp
  have n: "prod_name lenor_product = ''Unknown Product''"
    by (simp add: lenor_product_def)
  have u: "extract_name_from_url (t_product_url unnamed_row) = ''Lenor Geurbooster''"
    by code_simp
  have t: "t_product_name unnamed_row = None" "t_keyword unnamed_row = ''Lenor''"
    "t_product_id unnamed_row = lenor_id"
    by (simp_all add: unnamed_row_def labelled_row_def)
  from history_name_when_sentinel[OF f _ n, of empty_db] f n u t
  show ?thesis by (simp add: truthy_def empty_db_def mobile_env_def)
qed

text \<open>
  The claim as written has every stored name derived from the tracked address. An entry
  with a stored name keeps that name in its history record, whatever the address gives.
\<close>

theorem stored_name_counterexample:
  "find_product_ranking mobile_env (t_keyword labelled_row) (t_product_id labelled_row) 50
     = Inr (\<lparr>position = Some 2, page_product = Some 3, page = Some 2,
             product = Some lenor_product, total_found = 3\<rparr>,
            [(Lightweight, 1), (Lightweight, 2)])
   \<and> prod_name lenor_product = ''Unknown Product''
   \<and> extract_name_from_url (t_product_url labelled_row) = ''Lenor Geurbooster''
   \<and> map h_product_name
        (product_tracking (fst (snd (scheduled_check mobile_env empty_db labelled_row))))
       = [''Wasparfum 6 x 235 g'']"
  by code_simp

text \<open>
  The backfill of an entry without a stored name is not covered by the statement above:
  it writes the name of the located product as it is, here the sentinel.
\<close>

lemma backfill_writes_located_name:
  "map t_product_name
     (tracked_products (fst (snd (scheduled_check mobile_env
        (empty_db\<lparr>tracked_products := [unnamed_row]\<rparr>) unnamed_row))))
   = [Some ''Unknown Product'']"
  by code_simp

end
